theory Spec2Isabelle
  imports Main
begin

section \<open>Ana v1: the baton ring of \<^verbatim>\<open>src/Ana.py\<close>\<close>

text \<open>
  The program simulates one baton token on a ring of six tiles \<open>A\<close> .. \<open>F\<close>. All of its
  logic lives in the function \<^verbatim>\<open>simulate\<close> and a handful of helpers. Python integers are
  unbounded, so every number is an \<open>int\<close>; the three arrays \<^verbatim>\<open>S\<close>, \<^verbatim>\<open>E\<close> and \<^verbatim>\<open>buf\<close> are
  lists of integers; the dataclass \<^verbatim>\<open>Task\<close> is a record; the direction is the string the
  code stores (\<^verbatim>\<open>"CW"\<close> or \<^verbatim>\<open>"CCW"\<close>).
\<close>

subsection \<open>Ring topology (lines 30--42)\<close>

definition TILES :: "string list" where
  "TILES = [''A'', ''B'', ''C'', ''D'', ''E'', ''F'']"

text \<open>\<^verbatim>\<open>N = len(TILES)\<close>\<close>

definition N :: int where
  "N = int (length TILES)"

text \<open>\<^verbatim>\<open>IDX = {t: i for i, t in enumerate(TILES)}\<close>: the dictionary from tile names to indices.\<close>

definition IDX :: "string \<rightharpoonup> int" where
  "IDX = map_of (map (\<lambda>(i, t). (t, int i)) (enumerate 0 TILES))"

text \<open>
  The code only ever reads \<^verbatim>\<open>IDX["A"]\<close>, \<^verbatim>\<open>IDX["B"]\<close> and \<^verbatim>\<open>IDX["C"]\<close>, keys that are present;
  \<open>idx\<close> is that lookup.
\<close>

definition idx :: "string \<Rightarrow> int" where
  "idx t = the (IDX t)"

definition left :: "int \<Rightarrow> int" where
  "left i = (i - 1) mod N"

definition right :: "int \<Rightarrow> int" where
  "right i = (i + 1) mod N"

definition domain_sign :: "int \<Rightarrow> int" where
  "domain_sign i = (if i \<in> {idx ''A'', idx ''B'', idx ''C''} then 1 else - 1)"

subsection \<open>Boundary evaluator (lines 54--60)\<close>

text \<open>
  A list is read at an index \<open>i\<close> of the ring with \<open>xs ! nat i\<close>. Every index the program
  uses is \<^verbatim>\<open>IDX[..]\<close>, a loop variable of \<^verbatim>\<open>range(N)\<close> or a value of \<open>left\<close>, \<open>right\<close>, so it lies
  in \<open>{0..<6}\<close>, and the three lists are created with six elements and only ever updated
  in place (lemmas \<open>left_range\<close>, \<open>right_range\<close>, \<open>tick_wf\<close>, \<open>run_wf\<close> below): no read is out of
  range.
\<close>

definition eff :: "int list \<Rightarrow> int list \<Rightarrow> int \<Rightarrow> int" where
  "eff Sv bufv i = (if Sv ! nat i = 0 then bufv ! nat i else Sv ! nat i)"

definition boundary_strict_effective :: "int list \<Rightarrow> int list \<Rightarrow> int \<Rightarrow> bool" where
  "boundary_strict_effective Sv bufv i \<longleftrightarrow> eff Sv bufv (left i) + eff Sv bufv (right i) = 0"

subsection \<open>Task and state (lines 62--74, 129--140)\<close>

record Task =
  P :: int
  D :: int
  TTL :: int
  FAILCOUNT :: int
  DIR :: string
  K :: int
  H :: int
  PARK :: int

text \<open>\<^verbatim>\<open>Task(TTL=TTL)\<close>: every other field takes the default of the dataclass.\<close>

definition new_Task :: "int \<Rightarrow> Task" where
  "new_Task ttl = \<lparr>P = 1, D = 1, TTL = ttl, FAILCOUNT = 0, DIR = ''CW'', K = 3, H = 2, PARK = 0\<rparr>"

definition step_baton :: "int \<Rightarrow> string \<Rightarrow> int" where
  "step_baton pos direction = (if direction = ''CW'' then right pos else left pos)"

text \<open>The local variables of \<^verbatim>\<open>simulate\<close> that live across ticks.\<close>

record state =
  S :: "int list"
  E :: "int list"
  buf :: "int list"
  baton_pos :: int
  task :: Task

definition init_state :: "int \<Rightarrow> state" where
  "init_state ttl =
     \<lparr>S = [1, 1, 1, - 1, - 1, - 1][nat (idx ''A'') := 0],
      E = replicate (nat N) 0,
      buf = map domain_sign [0 .. N - 1],
      baton_pos = idx ''A'',
      task = new_Task ttl\<rparr>"

subsection \<open>One tick (lines 153--226)\<close>

text \<open>
  The entries of the list \<^verbatim>\<open>events\<close>. The code appends formatted strings; the model keeps
  the tag and the values that are formatted into it.
\<close>

datatype event =
    ARRIVE_C
  | JUMP
  | BOUNDARY bool bool
  | ACT_MIRROR
  | TTL_TO int
  | RE_ARM
  | DONE
  | HESITATE int
  | REV_DIR string
  | FAIL_TO int
  | ESCALATE int int

text \<open>What a tick prints as its header: the park marker, or the events of a move.\<close>

datatype tick_output = PARK_TICK | MOVE_TICK "event list"

text \<open>Step 1, \<^verbatim>\<open>for i in range(N): if E[i] > 0: E[i] -= 1\<close>.\<close>

definition decay :: "int list \<Rightarrow> int list" where
  "decay Ev = fold (\<lambda>i Ew. if Ew ! i > 0 then Ew[i := Ew ! i - 1] else Ew) [0 ..< nat N] Ev"

text \<open>
  Step 3, the atomic swap: release the old tile to its domain sign, read what the new
  tile held, acquire it. Returns the new \<^verbatim>\<open>S\<close>, the new \<^verbatim>\<open>baton_pos\<close> and \<^verbatim>\<open>prev\<close>.
\<close>

definition move_baton :: "state \<Rightarrow> int list \<times> int \<times> int" where
  "move_baton st =
     (let old = baton_pos st;
          new = step_baton (baton_pos st) (DIR (task st));
          S1 = (S st)[nat old := domain_sign old];
          prev = S1 ! nat new;
          S2 = S1[nat new := 0]
      in (S2, new, prev))"

text \<open>The branch \<^verbatim>\<open>if lb and rb\<close> (lines 192--211), on the decayed \<^verbatim>\<open>E\<close>.\<close>

definition act_success :: "int \<Rightarrow> int \<Rightarrow> int \<Rightarrow> int list \<Rightarrow> Task \<Rightarrow> int list \<times> Task \<times> event list" where
  "act_success Hshadow L R Ev tk =
     (let E1 = Ev[nat L := max (Ev ! nat L) Hshadow];
          E2 = E1[nat R := max (E1 ! nat R) Hshadow];
          E3 = E2[nat (idx ''C'') := 0];
          tk1 = tk\<lparr>FAILCOUNT := 0, TTL := TTL tk - 1\<rparr>;
          evs = [ACT_MIRROR, TTL_TO (TTL tk1)]
      in if TTL tk1 > 0
         then (E3, tk1\<lparr>D := 1\<rparr>, evs @ [RE_ARM])
         else (E3, tk1\<lparr>P := 0, D := 0\<rparr>, evs @ [DONE]))"

text \<open>The reversal of line 217, \<^verbatim>\<open>"CCW" if task.DIR == "CW" else "CW"\<close>.\<close>

definition flip_dir :: "string \<Rightarrow> string" where
  "flip_dir d = (if d = ''CW'' then ''CCW'' else ''CW'')"

text \<open>The \<^verbatim>\<open>else\<close> branch (lines 213--226), on the decayed \<^verbatim>\<open>E\<close> and the buffer.\<close>

definition act_fail :: "int \<Rightarrow> int list \<Rightarrow> int list \<Rightarrow> Task \<Rightarrow> int list \<times> int list \<times> Task \<times> event list" where
  "act_fail Emax Ev bufv tk =
     (let c = nat (idx ''C'');
          E1 = Ev[c := min (Ev ! c + 1) Emax];
          tk1 = tk\<lparr>DIR := flip_dir (DIR tk)\<rparr>;
          tk2 = tk1\<lparr>FAILCOUNT := FAILCOUNT tk1 + 1\<rparr>;
          evs = [HESITATE (E1 ! c), REV_DIR (DIR tk2), FAIL_TO (FAILCOUNT tk2)]
      in if FAILCOUNT tk2 \<ge> K tk2
         then (let buf1 = bufv[c := bufv ! c * (- 1)]
               in (E1, buf1, tk2\<lparr>PARK := H tk2, FAILCOUNT := 0\<rparr>,
                   evs @ [ESCALATE (H tk2) (buf1 ! c)]))
         else (E1, bufv, tk2, evs))"

text \<open>
  The body of the loop of \<^verbatim>\<open>simulate\<close> without pacing and printing: the state after the
  tick and what the tick reports.
\<close>

definition tick :: "int \<Rightarrow> int \<Rightarrow> state \<Rightarrow> state \<times> tick_output" where
  "tick Hshadow Emax st =
     (let E1 = decay (E st); tk = task st in
      if PARK tk > 0
      then (st\<lparr>E := E1, task := tk\<lparr>PARK := PARK tk - 1\<rparr>\<rparr>, PARK_TICK)
      else
        (case move_baton st of (S2, new, prev) \<Rightarrow>
          let arrive_c = (new = idx ''C'' \<and> prev \<in> {1, - 1}) in
          if arrive_c \<and> P tk = 1
          then
            (if D tk = 1
             then (st\<lparr>S := S2, E := E1, baton_pos := new, task := tk\<lparr>D := 0\<rparr>\<rparr>,
                   MOVE_TICK [ARRIVE_C, JUMP])
             else
               (let L = left new; R = right new;
                    lb = boundary_strict_effective S2 (buf st) L;
                    rb = boundary_strict_effective S2 (buf st) R
                in if lb \<and> rb
                   then (case act_success Hshadow L R E1 tk of (E2, tk', evs) \<Rightarrow>
                          (st\<lparr>S := S2, E := E2, baton_pos := new, task := tk'\<rparr>,
                           MOVE_TICK ([ARRIVE_C, BOUNDARY lb rb] @ evs)))
                   else (case act_fail Emax E1 (buf st) tk of (E2, buf', tk', evs) \<Rightarrow>
                          (st\<lparr>S := S2, E := E2, buf := buf', baton_pos := new, task := tk'\<rparr>,
                           MOVE_TICK ([ARRIVE_C, BOUNDARY lb rb] @ evs)))))
          else (st\<lparr>S := S2, E := E1, baton_pos := new\<rparr>, MOVE_TICK [])))"

text \<open>The state after \<open>n\<close> iterations of the loop, started by \<^verbatim>\<open>simulate(.., TTL=ttl)\<close>.\<close>

primrec run_state :: "int \<Rightarrow> int \<Rightarrow> int \<Rightarrow> nat \<Rightarrow> state" where
  "run_state Hshadow Emax ttl 0 = init_state ttl"
| "run_state Hshadow Emax ttl (Suc n) = fst (tick Hshadow Emax (run_state Hshadow Emax ttl n))"

text \<open>What the \<open>n\<close>-th iteration after those reports (iterations count from 0 here).\<close>

definition run_output :: "int \<Rightarrow> int \<Rightarrow> int \<Rightarrow> nat \<Rightarrow> tick_output" where
  "run_output Hshadow Emax ttl n = snd (tick Hshadow Emax (run_state Hshadow Emax ttl n))"

subsection \<open>The driver \<^verbatim>\<open>simulate\<close> and what can raise in it (lines 44--45, 76--119, 121--232)\<close>

text \<open>
  The code has no \<^verbatim>\<open>raise\<close> and no check of its arguments. What can raise in it is:
  \<^item> a dictionary lookup: \<^verbatim>\<open>s_char\<close> looks its argument up in a dictionary with the keys
    \<open>+1\<close>, \<open>0\<close>, \<open>-1\<close>, and \<^verbatim>\<open>render_circle\<close> looks \<^verbatim>\<open>baton_pos\<close> up in \<^verbatim>\<open>layout\<close>
    (\<^verbatim>\<open>KeyError\<close>);
  \<^item> the formatting of an integer in an f-string: CPython refuses to convert an integer of
    more than \<^verbatim>\<open>sys.int_max_str_digits\<close> decimal digits, 4300 unless reconfigured
    (\<^verbatim>\<open>ValueError\<close>);
  \<^item> the pacing of the loop: \<^verbatim>\<open>input\<close> at the end of the input (\<^verbatim>\<open>EOFError\<close>) and
    \<^verbatim>\<open>time.sleep\<close> with a negative argument (\<^verbatim>\<open>ValueError\<close>).

  Outside the model are failures of the output device under \<^verbatim>\<open>print\<close>, interrupts, and
  the arguments of \<^verbatim>\<open>time.sleep\<close> that are no finite number of seconds the platform's clock
  can count (NaN, infinities, very large delays).
\<close>

datatype py_error = KeyError | ValueError | EOFError

definition s_char :: "int \<Rightarrow> py_error + string" where
  "s_char v = (case map_of [(1, ''+''), (0, ''0''), (- 1, ''-'')] v of
                 None \<Rightarrow> Inl KeyError | Some c \<Rightarrow> Inr c)"

text \<open>
  The interpreter's limit on the digits of an integer turned into text, and the conversion
  \<^verbatim>\<open>{v}\<close> or \<^verbatim>\<open>{v:02d}\<close> of an f-string, of which the model keeps whether it raises.
\<close>

definition int_max_str_digits :: nat where
  "int_max_str_digits = 4300"

definition format_int :: "int \<Rightarrow> py_error + unit" where
  "format_int v = (if \<bar>v\<bar> < 10 ^ int_max_str_digits then Inr () else Inl ValueError)"




text \<open>
  The events whose text formats a number or looks a sign up, as the code appends them:
  \<^verbatim>\<open>TTL->{task.TTL}\<close>, \<^verbatim>\<open>HESITATE E(C)={E[C]}\<close>, \<^verbatim>\<open>FAIL->{task.FAILCOUNT}\<close> and
  \<^verbatim>\<open>ESCALATE PARK={task.H} buf(C)->{s_char(buf[C])}\<close>. The others format a string or two
  truth values.
\<close>

fun event_text :: "event \<Rightarrow> py_error + unit" where
  "event_text (TTL_TO v) = format_int v"
| "event_text (HESITATE v) = format_int v"
| "event_text (FAIL_TO v) = format_int v"
| "event_text (ESCALATE h b) =
     (case format_int h of Inl e \<Rightarrow> Inl e | Inr _ \<Rightarrow>
      (case s_char b of Inl e \<Rightarrow> Inl e | Inr _ \<Rightarrow> Inr ()))"
| "event_text _ = Inr ()"

fun events_text :: "event list \<Rightarrow> py_error + unit" where
  "events_text [] = Inr ()"
| "events_text (e # es) = (case event_text e of Inl x \<Rightarrow> Inl x | Inr _ \<Rightarrow> events_text es)"

definition events_of :: "tick_output \<Rightarrow> event list" where
  "events_of out = (case out of PARK_TICK \<Rightarrow> [] | MOVE_TICK evs \<Rightarrow> evs)"







text \<open>
  The same loop without the printing: what \<open>n\<close> ticks from a state report and leave, the
  reports alone, and all the events of such a trace in order.
\<close>

fun trace :: "nat \<Rightarrow> int \<Rightarrow> int \<Rightarrow> state \<Rightarrow> (tick_output \<times> state) list" where
  "trace 0 Hshadow Emax st = []"
| "trace (Suc n) Hshadow Emax st =
     (case tick Hshadow Emax st of (st', out) \<Rightarrow> (out, st') # trace n Hshadow Emax st')"

definition outputs :: "(tick_output \<times> state) list \<Rightarrow> tick_output list" where
  "outputs tr = map fst tr"

definition trace_events :: "(tick_output \<times> state) list \<Rightarrow> event list" where
  "trace_events tr = concat (map (\<lambda>(out, st). events_of out) tr)"

subsection \<open>Reading a tick's report\<close>

fun is_ESCALATE :: "event \<Rightarrow> bool" where
  "is_ESCALATE (ESCALATE h b) = True"
| "is_ESCALATE _ = False"

fun is_REV_DIR :: "event \<Rightarrow> bool" where
  "is_REV_DIR (REV_DIR d) = True"
| "is_REV_DIR _ = False"

fun is_HESITATE :: "event \<Rightarrow> bool" where
  "is_HESITATE (HESITATE e) = True"
| "is_HESITATE _ = False"

text \<open>An act attempt was made, it succeeded, it failed.\<close>

fun is_BOUNDARY :: "event \<Rightarrow> bool" where
  "is_BOUNDARY (BOUNDARY lb rb) = True"
| "is_BOUNDARY _ = False"

definition act_attempted :: "tick_output \<Rightarrow> bool" where
  "act_attempted out \<longleftrightarrow> list_ex is_BOUNDARY (events_of out)"

definition act_succeeded :: "tick_output \<Rightarrow> bool" where
  "act_succeeded out \<longleftrightarrow> ACT_MIRROR \<in> set (events_of out)"

definition act_failed :: "tick_output \<Rightarrow> bool" where
  "act_failed out \<longleftrightarrow> list_ex is_HESITATE (events_of out)"

definition escalated :: "tick_output \<Rightarrow> bool" where
  "escalated out \<longleftrightarrow> list_ex is_ESCALATE (events_of out)"

subsection \<open>Well-formed states and the states of a run\<close>

text \<open>The three arrays have six elements and the baton is on the ring.\<close>

definition wf :: "state \<Rightarrow> bool" where
  "wf st \<longleftrightarrow> length (S st) = 6 \<and> length (E st) = 6 \<and> length (buf st) = 6
     \<and> 0 \<le> baton_pos st \<and> baton_pos st < 6"

text \<open>
  What holds of every state of a run: the committed array is the domain signs with the
  baton's tile at 0, the buffer is the domain signs except possibly at \<open>C\<close>, and the task's
  fields are in their ranges.
\<close>

definition task_inv :: "Task \<Rightarrow> bool" where
  "task_inv tk \<longleftrightarrow> (P tk = 0 \<or> P tk = 1) \<and> (D tk = 0 \<or> D tk = 1)
     \<and> (DIR tk = ''CW'' \<or> DIR tk = ''CCW'') \<and> K tk = 3 \<and> H tk = 2
     \<and> 0 \<le> FAILCOUNT tk \<and> FAILCOUNT tk < 3 \<and> 0 \<le> PARK tk \<and> PARK tk \<le> 2"

definition released :: "int list" where
  "released = [1, 1, 1, - 1, - 1, - 1]"

definition ring_inv :: "state \<Rightarrow> bool" where
  "ring_inv st \<longleftrightarrow> 0 \<le> baton_pos st \<and> baton_pos st < 6
     \<and> S st = released[nat (baton_pos st) := 0]
     \<and> length (E st) = 6
     \<and> (buf st = released \<or> buf st = released[2 := - 1])
     \<and> task_inv (task st)"

definition shadow_bounded :: "int \<Rightarrow> state \<Rightarrow> bool" where
  "shadow_bounded Emax st \<longleftrightarrow> list_all (\<lambda>v. 0 \<le> v \<and> v \<le> Emax) (E st)"

section \<open>Basic facts\<close>

subsection \<open>Constants, ranges of indices, decay\<close>

lemma N_6: "N = 6" by (simp add: N_def TILES_def)

lemma idx_A: "idx ''A'' = 0" by (simp add: idx_def IDX_def TILES_def)

lemma idx_B: "idx ''B'' = 1" by (simp add: idx_def IDX_def TILES_def)

lemma idx_C: "idx ''C'' = 2" by (simp add: idx_def IDX_def TILES_def)

lemma left_range: "0 \<le> left i \<and> left i < 6" by (simp add: left_def N_6)

lemma right_range: "0 \<le> right i \<and> right i < 6" by (simp add: right_def N_6)

lemma pos_cases:
  assumes "0 \<le> p" "p < 6"
  obtains "p = 0" | "p = 1" | "p = 2" | "p = 3" | "p = 4" | "p = (5::int)"
  using assms by arith

lemma six_list:
  assumes "length xs = 6"
  obtains a b c d e f where "xs = [a, b, c, d, e, f]"
  using assms by (auto simp: length_Suc_conv eval_nat_numeral)

lemma upt_6: "[0 ..< 6] = [0, 1, 2, 3, 4, 5]" by (simp add: upt_rec)

lemma decay_six:
  "decay [a, b, c, d, e, f] = map (\<lambda>v. if v > 0 then v - 1 else v) [a, b, c, d, e, f]"
  by (simp add: decay_def N_6 upt_6)

lemma decay_map: "length Ev = 6 \<Longrightarrow> decay Ev = map (\<lambda>v. if v > 0 then v - 1 else v) Ev"
  by (erule six_list) (simp only: decay_six)

lemma length_decay: "length Ev = 6 \<Longrightarrow> length (decay Ev) = 6"
  by (simp add: decay_map)

lemma init_state_eq: "init_state ttl = \<lparr>S = [0, 1, 1, - 1, - 1, - 1], E = [0,0,0,0,0,0], buf = [1, 1, 1, - 1, - 1, - 1], baton_pos = 0, task = new_Task ttl\<rparr>"
  by (simp add: init_state_def idx_A idx_B idx_C N_6 domain_sign_def upto.simps eval_nat_numeral)

lemma step_baton_range: "0 \<le> step_baton p d \<and> step_baton p d < 6"
  by (simp add: step_baton_def left_range right_range)

lemma step_baton_neq: "0 \<le> p \<Longrightarrow> p < 6 \<Longrightarrow> step_baton p d \<noteq> p"
  by (erule (1) pos_cases) (simp_all add: step_baton_def left_def right_def N_6)

lemma length_released: "length released = 6" by (simp add: released_def)

lemma domain_sign_nth: "0 \<le> p \<Longrightarrow> p < 6 \<Longrightarrow> released ! nat p = domain_sign p"
  by (erule (1) pos_cases) (simp_all add: released_def domain_sign_def idx_A idx_B idx_C eval_nat_numeral)

lemma domain_sign_pm: "domain_sign p = 1 \<or> domain_sign p = - 1"
  by (simp add: domain_sign_def)

lemma move_baton_ring:
  assumes "ring_inv st"
  shows "move_baton st =
    (released[nat (step_baton (baton_pos st) (DIR (task st))) := 0],
     step_baton (baton_pos st) (DIR (task st)),
     domain_sign (step_baton (baton_pos st) (DIR (task st))))"
proof -
  let ?p = "baton_pos st" and ?q = "step_baton (baton_pos st) (DIR (task st))"
  from assms have p: "0 \<le> ?p" "?p < 6" and Sv: "S st = released[nat ?p := 0]"
    by (simp_all add: ring_inv_def)
  have q: "0 \<le> ?q" "?q < 6" "nat ?q \<noteq> nat ?p"
    using step_baton_range [of ?p "DIR (task st)"] step_baton_neq [OF p, of "DIR (task st)"] p
    by auto
  have rel: "(S st)[nat ?p := domain_sign ?p] = released"
    unfolding Sv using domain_sign_nth [OF p] by (simp, metis list_update_id)
  show ?thesis
    unfolding move_baton_def Let_def rel using domain_sign_nth [OF q(1,2)] by simp
qed

lemma no_success_geometry:
  assumes "bufv = released \<or> bufv = released[2 := - 1]"
  shows "\<not> (boundary_strict_effective (released[2 := 0]) bufv 1
           \<and> boundary_strict_effective (released[2 := 0]) bufv 3)"
  using assms
  by (auto simp: released_def boundary_strict_effective_def eff_def left_def right_def N_6 eval_nat_numeral)

lemma tick_parked:
  assumes "PARK (task st) > 0"
  shows "tick Hs Em st =
    (st\<lparr>E := decay (E st), task := (task st)\<lparr>PARK := PARK (task st) - 1\<rparr>\<rparr>, PARK_TICK)"
  using assms by (simp add: tick_def Let_def)

lemma tick_pass:
  assumes "\<not> PARK (task st) > 0" and "move_baton st = (S2, new, prev)"
    and "\<not> (new = 2 \<and> (prev = 1 \<or> prev = - 1) \<and> P (task st) = 1)"
  shows "tick Hs Em st = (st\<lparr>S := S2, E := decay (E st), baton_pos := new\<rparr>, MOVE_TICK [])"
  using assms by (auto simp: tick_def Let_def idx_C)

lemma tick_jump:
  assumes "\<not> PARK (task st) > 0" and "move_baton st = (S2, new, prev)"
    and "new = 2" and "prev = 1 \<or> prev = - 1" and "P (task st) = 1" and "D (task st) = 1"
  shows "tick Hs Em st =
    (st\<lparr>S := S2, E := decay (E st), baton_pos := new, task := (task st)\<lparr>D := 0\<rparr>\<rparr>,
     MOVE_TICK [ARRIVE_C, JUMP])"
  using assms by (auto simp: tick_def Let_def idx_C)

lemma tick_success:
  assumes "\<not> PARK (task st) > 0" and "move_baton st = (S2, new, prev)"
    and "new = 2" and "prev = 1 \<or> prev = - 1" and "P (task st) = 1" and "D (task st) \<noteq> 1"
    and "boundary_strict_effective S2 (buf st) (left 2)"
    and "boundary_strict_effective S2 (buf st) (right 2)"
    and "act_success Hs (left 2) (right 2) (decay (E st)) (task st) = (E2, tk', evs)"
  shows "tick Hs Em st =
    (st\<lparr>S := S2, E := E2, baton_pos := new, task := tk'\<rparr>,
     MOVE_TICK ([ARRIVE_C, BOUNDARY True True] @ evs))"
  using assms by (auto simp: tick_def Let_def idx_C)

lemma tick_fail:
  assumes "\<not> PARK (task st) > 0" and "move_baton st = (S2, new, prev)"
    and "new = 2" and "prev = 1 \<or> prev = - 1" and "P (task st) = 1" and "D (task st) \<noteq> 1"
    and "\<not> (boundary_strict_effective S2 (buf st) (left 2)
           \<and> boundary_strict_effective S2 (buf st) (right 2))"
    and "act_fail Em (decay (E st)) (buf st) (task st) = (E2, buf', tk', evs)"
  shows "tick Hs Em st =
    (st\<lparr>S := S2, E := E2, buf := buf', baton_pos := new, task := tk'\<rparr>,
     MOVE_TICK ([ARRIVE_C, BOUNDARY (boundary_strict_effective S2 (buf st) (left 2))
                  (boundary_strict_effective S2 (buf st) (right 2))] @ evs))"
  using assms by (auto simp: tick_def Let_def idx_C)

subsection \<open>The branches of a tick\<close>

lemma act_fail_below:
  assumes "FAILCOUNT tk + 1 < K tk"
  shows "act_fail Em Ev bufv tk =
    (Ev[2 := min (Ev ! 2 + 1) Em], bufv,
     tk\<lparr>DIR := flip_dir (DIR tk), FAILCOUNT := FAILCOUNT tk + 1\<rparr>,
     [HESITATE (Ev[2 := min (Ev ! 2 + 1) Em] ! 2), REV_DIR (flip_dir (DIR tk)),
      FAIL_TO (FAILCOUNT tk + 1)])"
  using assms by (simp add: act_fail_def Let_def idx_C flip_dir_def)

lemma act_fail_escalate:
  assumes "FAILCOUNT tk + 1 \<ge> K tk"
  shows "act_fail Em Ev bufv tk =
    (Ev[2 := min (Ev ! 2 + 1) Em], bufv[2 := - (bufv ! 2)],
     tk\<lparr>DIR := flip_dir (DIR tk), FAILCOUNT := 0, PARK := H tk\<rparr>,
     [HESITATE (Ev[2 := min (Ev ! 2 + 1) Em] ! 2), REV_DIR (flip_dir (DIR tk)),
      FAIL_TO (FAILCOUNT tk + 1), ESCALATE (H tk) (bufv[2 := - (bufv ! 2)] ! 2)])"
  using assms by (simp add: act_fail_def Let_def idx_C flip_dir_def)

lemma act_success_rearm:
  assumes "TTL tk - 1 > 0"
  shows "act_success Hs 1 3 Ev tk =
    (Ev[1 := max (Ev ! 1) Hs, 3 := max (Ev[1 := max (Ev ! 1) Hs] ! 3) Hs, 2 := 0],
     tk\<lparr>FAILCOUNT := 0, TTL := TTL tk - 1, D := 1\<rparr>,
     [ACT_MIRROR, TTL_TO (TTL tk - 1), RE_ARM])"
  using assms by (simp add: act_success_def Let_def idx_C)

lemma act_success_done:
  assumes "\<not> TTL tk - 1 > 0"
  shows "act_success Hs 1 3 Ev tk =
    (Ev[1 := max (Ev ! 1) Hs, 3 := max (Ev[1 := max (Ev ! 1) Hs] ! 3) Hs, 2 := 0],
     tk\<lparr>FAILCOUNT := 0, TTL := TTL tk - 1, P := 0, D := 0\<rparr>,
     [ACT_MIRROR, TTL_TO (TTL tk - 1), DONE])"
  using assms by (simp add: act_success_def Let_def idx_C)

lemma left_2: "left 2 = 1" by (simp add: left_def N_6)

lemma right_2: "right 2 = 3" by (simp add: right_def N_6)

lemma tick_cases [case_names parked pass jump success fail]:
  obtains
    (parked) "PARK (task st) > 0"
      "tick Hs Em st =
         (st\<lparr>E := decay (E st), task := (task st)\<lparr>PARK := PARK (task st) - 1\<rparr>\<rparr>, PARK_TICK)"
  | (pass) S2 new prev where "\<not> PARK (task st) > 0" "move_baton st = (S2, new, prev)"
      "\<not> (new = 2 \<and> (prev = 1 \<or> prev = - 1) \<and> P (task st) = 1)"
      "tick Hs Em st = (st\<lparr>S := S2, E := decay (E st), baton_pos := new\<rparr>, MOVE_TICK [])"
  | (jump) S2 prev where "\<not> PARK (task st) > 0" "move_baton st = (S2, 2, prev)"
      "prev = 1 \<or> prev = - 1" "P (task st) = 1" "D (task st) = 1"
      "tick Hs Em st =
         (st\<lparr>S := S2, E := decay (E st), baton_pos := 2, task := (task st)\<lparr>D := 0\<rparr>\<rparr>,
          MOVE_TICK [ARRIVE_C, JUMP])"
  | (success) S2 prev E2 tk' evs where "\<not> PARK (task st) > 0" "move_baton st = (S2, 2, prev)"
      "prev = 1 \<or> prev = - 1" "P (task st) = 1" "D (task st) \<noteq> 1"
      "boundary_strict_effective S2 (buf st) 1" "boundary_strict_effective S2 (buf st) 3"
      "act_success Hs 1 3 (decay (E st)) (task st) = (E2, tk', evs)"
      "tick Hs Em st =
         (st\<lparr>S := S2, E := E2, baton_pos := 2, task := tk'\<rparr>,
          MOVE_TICK ([ARRIVE_C, BOUNDARY True True] @ evs))"
  | (fail) S2 prev E2 buf' tk' evs where "\<not> PARK (task st) > 0" "move_baton st = (S2, 2, prev)"
      "prev = 1 \<or> prev = - 1" "P (task st) = 1" "D (task st) \<noteq> 1"
      "\<not> (boundary_strict_effective S2 (buf st) 1 \<and> boundary_strict_effective S2 (buf st) 3)"
      "act_fail Em (decay (E st)) (buf st) (task st) = (E2, buf', tk', evs)"
      "tick Hs Em st =
         (st\<lparr>S := S2, E := E2, buf := buf', baton_pos := 2, task := tk'\<rparr>,
          MOVE_TICK ([ARRIVE_C, BOUNDARY (boundary_strict_effective S2 (buf st) 1)
                        (boundary_strict_effective S2 (buf st) 3)] @ evs))"
proof (cases "PARK (task st) > 0")
  case True
  then show ?thesis using parked tick_parked by blast
next
  case np: False
  obtain S2 new prev where mv: "move_baton st = (S2, new, prev)"
    by (cases "move_baton st") auto
  show ?thesis
  proof (cases "new = 2 \<and> (prev = 1 \<or> prev = - 1) \<and> P (task st) = 1")
    case False
    from tick_pass [OF np mv False] pass [OF np mv False] show ?thesis by blast
  next
    case arr: True
    then have mv2: "move_baton st = (S2, 2, prev)" and n2: "(2::int) = 2"
      and pv: "prev = 1 \<or> prev = - 1" and p1: "P (task st) = 1"
      using mv by simp_all
    show ?thesis
    proof (cases "D (task st) = 1")
      case True
      from tick_jump [OF np mv2 n2 pv p1 True] jump [OF np mv2 pv p1 True] show ?thesis by blast
    next
      case d0: False
      show ?thesis
      proof (cases "boundary_strict_effective S2 (buf st) 1 \<and> boundary_strict_effective S2 (buf st) 3")
        case True
        then have b1: "boundary_strict_effective S2 (buf st) (left 2)"
          and b3: "boundary_strict_effective S2 (buf st) (right 2)"
          by (simp_all add: left_2 right_2)
        obtain E2 tk' evs where a: "act_success Hs (left 2) (right 2) (decay (E st)) (task st) = (E2, tk', evs)"
          by (cases "act_success Hs (left 2) (right 2) (decay (E st)) (task st)") auto
        from tick_success [OF np mv2 n2 pv p1 d0 b1 b3 a] a True
          success [OF np mv2 pv p1 d0 _ _ _ , of E2 tk' evs]
        show ?thesis by (simp add: left_2 right_2)
      next
        case False
        then have nb: "\<not> (boundary_strict_effective S2 (buf st) (left 2)
           \<and> boundary_strict_effective S2 (buf st) (right 2))"
          by (simp add: left_2 right_2)
        obtain E2 buf' tk' evs where a: "act_fail Em (decay (E st)) (buf st) (task st) = (E2, buf', tk', evs)"
          by (cases "act_fail Em (decay (E st)) (buf st) (task st)") auto
        from tick_fail [OF np mv2 n2 pv p1 d0 nb a] a False
          fail [OF np mv2 pv p1 d0 False a]
        show ?thesis by (simp add: left_2 right_2)
      qed
    qed
  qed
qed

subsection \<open>The invariant of a run\<close>

lemma flip_buf:
  assumes "bufv = released \<or> bufv = released[2 := - 1]"
  shows "bufv[2 := - (bufv ! 2)] = released \<or> bufv[2 := - (bufv ! 2)] = released[2 := - 1]"
  using assms by (auto simp: released_def)

lemma ring_no_success:
  assumes "ring_inv st" and "move_baton st = (S2, 2, prev)"
  shows "\<not> (boundary_strict_effective S2 (buf st) 1 \<and> boundary_strict_effective S2 (buf st) 3)"
proof -
  from assms have "S2 = released[2 := 0]"
    by (auto simp: move_baton_ring)
  moreover from assms(1) have "buf st = released \<or> buf st = released[2 := - 1]"
    by (simp add: ring_inv_def)
  ultimately show ?thesis
    using no_success_geometry [of "buf st"] by simp
qed

lemma ring_move:
  assumes "ring_inv st" and "move_baton st = (S2, new, prev)"
  shows "0 \<le> new \<and> new < 6 \<and> S2 = released[nat new := 0] \<and> (prev = 1 \<or> prev = - 1)"
  using assms step_baton_range [of "baton_pos st" "DIR (task st)"]
    domain_sign_pm [of "step_baton (baton_pos st) (DIR (task st))"]
  by (auto simp: move_baton_ring)

lemma act_fail_task_inv:
  assumes "act_fail Em Ev bufv tk = (E2, buf2, tk2, evs)" and "task_inv tk" and "\<not> PARK tk > 0"
  shows "task_inv tk2"
proof (cases "FAILCOUNT tk + 1 < K tk")
  case True
  from assms True show ?thesis
    unfolding act_fail_below [OF True] by (auto simp: task_inv_def flip_dir_def)
next
  case False
  then have ge: "FAILCOUNT tk + 1 \<ge> K tk" by simp
  from assms ge show ?thesis
    unfolding act_fail_escalate [OF ge] by (auto simp: task_inv_def flip_dir_def)
qed

lemma act_fail_shape:
  assumes "act_fail Em Ev bufv tk = (E2, buf2, tk2, evs)"
  shows "E2 = Ev[2 := min (Ev ! 2 + 1) Em] \<and> (buf2 = bufv \<or> buf2 = bufv[2 := - (bufv ! 2)])"
proof (cases "FAILCOUNT tk + 1 < K tk")
  case True
  from assms show ?thesis unfolding act_fail_below [OF True] by auto
next
  case False
  then have ge: "FAILCOUNT tk + 1 \<ge> K tk" by simp
  from assms show ?thesis unfolding act_fail_escalate [OF ge] by auto
qed

lemma tick_ring_inv:
  assumes "ring_inv st"
  shows "ring_inv (fst (tick Hs Em st))"
proof (cases rule: tick_cases [of st Hs Em])
  case parked
  with assms show ?thesis
    by (simp add: ring_inv_def task_inv_def length_decay)
next
  case (pass S2 new prev)
  with assms ring_move [OF assms pass(2)] show ?thesis
    by (simp add: ring_inv_def length_decay)
next
  case (jump S2 prev)
  with assms ring_move [OF assms jump(2)] show ?thesis
    by (simp add: ring_inv_def task_inv_def length_decay)
next
  case (success S2 prev E2 tk' evs)
  with ring_no_success [OF assms success(2)] show ?thesis by simp
next
  case (fail S2 prev E2 buf' tk' evs)
  from assms have tk: "task_inv (task st)" and bf: "buf st = released \<or> buf st = released[2 := - 1]"
    and le: "length (E st) = 6"
    by (simp_all add: ring_inv_def)
  from act_fail_task_inv [OF fail(7) tk fail(1)] have "task_inv tk'" .
  moreover from act_fail_shape [OF fail(7)] flip_buf [OF bf] bf
  have "length E2 = 6" "buf' = released \<or> buf' = released[2 := - 1]"
    by (auto simp: length_decay le)
  ultimately show ?thesis
    using ring_move [OF assms fail(2)] fail(8) by (simp add: ring_inv_def)
qed

lemma init_ring_inv: "ring_inv (init_state ttl)"
  by (simp add: init_state_eq ring_inv_def task_inv_def new_Task_def released_def)

lemma run_ring_inv: "ring_inv (run_state Hs Em ttl n)"
  by (induction n) (simp_all add: init_ring_inv tick_ring_inv)

lemma ring_inv_wf: "ring_inv st \<Longrightarrow> wf st"
  by (auto simp: ring_inv_def wf_def length_released)

lemma ring_S_shape:
  assumes "0 \<le> p" "p < 6" and "Sv = released[nat p := 0]"
  shows "length Sv = 6
     \<and> length (filter (\<lambda>v. v = 0) Sv) = 1
     \<and> Sv ! nat p = 0
     \<and> list_all (\<lambda>v. v = 0 \<or> v = 1 \<or> v = - 1) Sv
     \<and> Sv = (map domain_sign [0 .. N - 1])[nat p := 0]"
  using assms
  by (elim pos_cases) (simp_all add: released_def eval_nat_numeral N_6 upto.simps domain_sign_def idx_A idx_B idx_C)

subsection \<open>What the branches report\<close>

lemma idx_D: "idx ''D'' = 3" by (simp add: idx_def IDX_def TILES_def)

lemma idx_E: "idx ''E'' = 4" by (simp add: idx_def IDX_def TILES_def)

lemma move_baton_wf:
  assumes "wf st" and "move_baton st = (S2, new, prev)"
  shows "0 \<le> new \<and> new < 6 \<and> length S2 = 6 \<and> S2 ! nat new = 0
       \<and> new = step_baton (baton_pos st) (DIR (task st))"
  using assms step_baton_range [of "baton_pos st" "DIR (task st)"]
  by (auto simp: wf_def move_baton_def Let_def)

lemma act_fail_events:
  assumes "act_fail Em Ev bufv tk = (E2, buf2, tk2, evs)"
  shows "list_ex is_HESITATE evs \<and> ACT_MIRROR \<notin> set evs \<and> \<not> list_ex is_BOUNDARY evs
       \<and> ARRIVE_C \<notin> set evs
       \<and> (list_ex is_ESCALATE evs \<longleftrightarrow> FAILCOUNT tk + 1 \<ge> K tk)
       \<and> (FAIL_TO k \<in> set evs \<longleftrightarrow> k = FAILCOUNT tk + 1)"
proof (cases "FAILCOUNT tk + 1 < K tk")
  case True
  from assms True show ?thesis unfolding act_fail_below [OF True] by auto
next
  case False
  then have ge: "FAILCOUNT tk + 1 \<ge> K tk" by simp
  from assms ge show ?thesis unfolding act_fail_escalate [OF ge] by auto
qed

lemma act_success_shape:
  assumes "act_success Hs 1 3 Ev tk = (E2, tk2, evs)"
  shows "E2 = Ev[1 := max (Ev ! 1) Hs, 3 := max (Ev[1 := max (Ev ! 1) Hs] ! 3) Hs, 2 := 0]
       \<and> FAILCOUNT tk2 = 0 \<and> TTL tk2 = TTL tk - 1
       \<and> DIR tk2 = DIR tk \<and> K tk2 = K tk \<and> H tk2 = H tk \<and> PARK tk2 = PARK tk
       \<and> ACT_MIRROR \<in> set evs \<and> \<not> list_ex is_HESITATE evs \<and> \<not> list_ex is_ESCALATE evs
       \<and> \<not> list_ex is_BOUNDARY evs \<and> \<not> list_ex is_REV_DIR evs \<and> ARRIVE_C \<notin> set evs
       \<and> FAIL_TO k \<notin> set evs"
proof (cases "TTL tk - 1 > 0")
  case True
  from assms show ?thesis unfolding act_success_rearm [OF True] by auto
next
  case False
  from assms show ?thesis unfolding act_success_done [OF False] by auto
qed

lemma act_fail_below_elim:
  assumes "FAILCOUNT tk + 1 < K tk" and "act_fail Em Ev bufv tk = (E2, buf2, tk2, evs)"
  shows "E2 = Ev[2 := min (Ev ! 2 + 1) Em] \<and> buf2 = bufv
       \<and> tk2 = tk\<lparr>DIR := flip_dir (DIR tk), FAILCOUNT := FAILCOUNT tk + 1\<rparr>
       \<and> evs = [HESITATE (E2 ! 2), REV_DIR (flip_dir (DIR tk)), FAIL_TO (FAILCOUNT tk + 1)]"
  using assms(2) unfolding act_fail_below [OF assms(1)] by auto

lemma act_fail_escalate_elim:
  assumes "FAILCOUNT tk + 1 \<ge> K tk" and "act_fail Em Ev bufv tk = (E2, buf2, tk2, evs)"
  shows "E2 = Ev[2 := min (Ev ! 2 + 1) Em] \<and> buf2 = bufv[2 := - (bufv ! 2)]
       \<and> tk2 = tk\<lparr>DIR := flip_dir (DIR tk), FAILCOUNT := 0, PARK := H tk\<rparr>
       \<and> evs = [HESITATE (E2 ! 2), REV_DIR (flip_dir (DIR tk)), FAIL_TO (FAILCOUNT tk + 1),
                ESCALATE (H tk) (buf2 ! 2)]"
  using assms(2) unfolding act_fail_escalate [OF assms(1)] by auto

lemma E_update_three:
  assumes "length Ev = 6"
  shows "Ev[1 := a, 3 := b, 2 := c] ! 1 = a \<and> Ev[1 := a, 3 := b, 2 := c] ! 3 = b
       \<and> Ev[1 := a, 3 := b, 2 := c] ! 2 = c \<and> Ev[1 := a] ! 3 = Ev ! 3"
  using assms by simp

subsection \<open>The default run, evaluated\<close>

text \<open>\<^verbatim>\<open>simulate()\<close> with the defaults \<open>Hshadow = 3\<close>, \<open>Emax = 6\<close>, \<open>TTL = 3\<close>: the states around the first act attempt (tick 8) and around the escalation (tick 20).\<close>

lemma run_default_7:
  "run_state 3 6 3 7 =
     \<lparr>S = [1, 0, 1, - 1, - 1, - 1], E = [0, 0, 0, 0, 0, 0], buf = [1, 1, 1, - 1, - 1, - 1],
      baton_pos = 1,
      task = \<lparr>P = 1, D = 0, TTL = 3, FAILCOUNT = 0, DIR = ''CW'', K = 3, H = 2, PARK = 0\<rparr>\<rparr>"
  by code_simp

lemma tick_default_8:
  "tick 3 6 (run_state 3 6 3 7) =
     (\<lparr>S = [1, 1, 0, - 1, - 1, - 1], E = [0, 0, 1, 0, 0, 0], buf = [1, 1, 1, - 1, - 1, - 1],
       baton_pos = 2,
       task = \<lparr>P = 1, D = 0, TTL = 3, FAILCOUNT = 1, DIR = ''CCW'', K = 3, H = 2, PARK = 0\<rparr>\<rparr>,
      MOVE_TICK [ARRIVE_C, BOUNDARY False True, HESITATE 1, REV_DIR ''CCW'', FAIL_TO 1])"
  by code_simp

lemma run_default_8:
  "run_state 3 6 3 8 =
     \<lparr>S = [1, 1, 0, - 1, - 1, - 1], E = [0, 0, 1, 0, 0, 0], buf = [1, 1, 1, - 1, - 1, - 1],
       baton_pos = 2,
       task = \<lparr>P = 1, D = 0, TTL = 3, FAILCOUNT = 1, DIR = ''CCW'', K = 3, H = 2, PARK = 0\<rparr>\<rparr>"
  by code_simp

lemma run_default_19:
  "run_state 3 6 3 19 =
     \<lparr>S = [1, 0, 1, - 1, - 1, - 1], E = [0, 0, 0, 0, 0, 0], buf = [1, 1, 1, - 1, - 1, - 1],
      baton_pos = 1,
      task = \<lparr>P = 1, D = 0, TTL = 3, FAILCOUNT = 2, DIR = ''CW'', K = 3, H = 2, PARK = 0\<rparr>\<rparr>"
  by code_simp

lemma tick_default_20:
  "tick 3 6 (run_state 3 6 3 19) =
     (\<lparr>S = [1, 1, 0, - 1, - 1, - 1], E = [0, 0, 1, 0, 0, 0], buf = [1, 1, - 1, - 1, - 1, - 1],
       baton_pos = 2,
       task = \<lparr>P = 1, D = 0, TTL = 3, FAILCOUNT = 0, DIR = ''CCW'', K = 3, H = 2, PARK = 2\<rparr>\<rparr>,
      MOVE_TICK [ARRIVE_C, BOUNDARY False True, HESITATE 1, REV_DIR ''CCW'', FAIL_TO 3,
                 ESCALATE 2 (- 1)])"
  by code_simp

lemma run_default_20:
  "run_state 3 6 3 20 =
     \<lparr>S = [1, 1, 0, - 1, - 1, - 1], E = [0, 0, 1, 0, 0, 0], buf = [1, 1, - 1, - 1, - 1, - 1],
       baton_pos = 2,
       task = \<lparr>P = 1, D = 0, TTL = 3, FAILCOUNT = 0, DIR = ''CCW'', K = 3, H = 2, PARK = 2\<rparr>\<rparr>"
  by code_simp

subsection \<open>Nothing raises in a run\<close>





subsection \<open>Shadow levels\<close>

lemma ring_tick_not_success:
  assumes "ring_inv st"
  shows "\<not> act_succeeded (snd (tick Hs Em st))"
proof (cases rule: tick_cases [of st Hs Em])
  case parked
  then show ?thesis by (simp add: act_succeeded_def events_of_def)
next
  case (pass S2 new prev)
  then show ?thesis by (simp add: act_succeeded_def events_of_def)
next
  case (jump S2 prev)
  then show ?thesis by (simp add: act_succeeded_def events_of_def)
next
  case (success S2 prev E2 tk' evs)
  with ring_no_success [OF assms success(2)] show ?thesis by simp
next
  case (fail S2 prev E2 buf' tk' evs)
  with act_fail_events [OF fail(7)] show ?thesis
    by (simp add: act_succeeded_def events_of_def)
qed

lemma bounded_decay:
  assumes "list_all (\<lambda>v. 0 \<le> v \<and> v \<le> Em) Ev" and "length Ev = 6"
  shows "list_all (\<lambda>v. 0 \<le> v \<and> v \<le> Em) (decay Ev)"
  using assms by (auto simp: decay_map list_all_iff)

lemma bounded_update:
  assumes "list_all (\<lambda>v. 0 \<le> v \<and> v \<le> Em) Ev" and "0 \<le> x" and "x \<le> (Em::int)"
  shows "list_all (\<lambda>v. 0 \<le> v \<and> v \<le> Em) (Ev[i := x])"
  using assms set_update_subset_insert [of Ev i x] by (auto simp: list_all_iff)

lemma bounded_nth:
  assumes "list_all (\<lambda>v. 0 \<le> v \<and> v \<le> Em) Ev" and "i < length Ev"
  shows "0 \<le> Ev ! i \<and> Ev ! i \<le> (Em::int)"
  using assms by (simp add: list_all_length)

lemma tick_shadow_bounded:
  assumes "0 \<le> Em" and "length (E st) = 6" and "shadow_bounded Em st"
    and "Hs \<le> Em \<or> \<not> act_succeeded (snd (tick Hs Em st))"
  shows "shadow_bounded Em (fst (tick Hs Em st)) \<and> length (E (fst (tick Hs Em st))) = 6"
proof -
  from assms(2,3) have d: "list_all (\<lambda>v. 0 \<le> v \<and> v \<le> Em) (decay (E st))"
    and ld: "length (decay (E st)) = 6"
    by (simp_all add: shadow_bounded_def bounded_decay length_decay)
  show ?thesis
  proof (cases rule: tick_cases [of st Hs Em])
    case parked
    with d ld show ?thesis by (simp add: shadow_bounded_def)
  next
    case (pass S2 new prev)
    with d ld show ?thesis by (simp add: shadow_bounded_def)
  next
    case (jump S2 prev)
    with d ld show ?thesis by (simp add: shadow_bounded_def)
  next
    case (success S2 prev E2 tk' evs)
    note sh = act_success_shape [OF success(8), of 0]
    from success(9) sh have "act_succeeded (snd (tick Hs Em st))"
      by (simp add: act_succeeded_def events_of_def)
    with assms(4) have hs: "Hs \<le> Em" by simp
    let ?E1 = "(decay (E st))[1 := max (decay (E st) ! 1) Hs]"
    from bounded_nth [OF d, of 1] ld hs
    have "list_all (\<lambda>v. 0 \<le> v \<and> v \<le> Em) ?E1"
      by (intro bounded_update [OF d]) auto
    moreover from bounded_nth [OF this, of 3] ld hs
    have "0 \<le> max (?E1 ! 3) Hs" "max (?E1 ! 3) Hs \<le> Em" by auto
    ultimately have "list_all (\<lambda>v. 0 \<le> v \<and> v \<le> Em) (?E1[3 := max (?E1 ! 3) Hs])"
      by (rule bounded_update)
    from bounded_update [OF this, of 0 2] assms(1)
    have "list_all (\<lambda>v. 0 \<le> v \<and> v \<le> Em) (?E1[3 := max (?E1 ! 3) Hs, 2 := 0])"
      by simp
    with sh ld show ?thesis
      unfolding success(9) by (simp add: shadow_bounded_def)
  next
    case (fail S2 prev E2 buf' tk' evs)
    from act_fail_shape [OF fail(7)]
    have e2: "E2 = (decay (E st))[2 := min (decay (E st) ! 2 + 1) Em]" by simp
    from bounded_nth [OF d, of 2] ld assms(1)
    have "list_all (\<lambda>v. 0 \<le> v \<and> v \<le> Em) E2"
      unfolding e2 by (intro bounded_update [OF d]) auto
    with ld show ?thesis
      unfolding fail(8) by (simp add: shadow_bounded_def e2)
  qed
qed

lemma run_shadow_bounded:
  assumes "0 \<le> Em"
  shows "shadow_bounded Em (run_state Hs Em ttl n) \<and> length (E (run_state Hs Em ttl n)) = 6"
proof (induction n)
  case 0
  from assms show ?case by (simp add: init_state_eq shadow_bounded_def)
next
  case (Suc n)
  from ring_tick_not_success [OF run_ring_inv [of Hs Em ttl n], of Hs Em]
  have "Hs \<le> Em \<or> \<not> act_succeeded (snd (tick Hs Em (run_state Hs Em ttl n)))" by simp
  with tick_shadow_bounded [OF assms _ _ this] Suc show ?case by simp
qed

subsection \<open>The repeat budget and the active flag\<close>

lemma act_success_PD:
  assumes "act_success Hs 1 3 Ev tk = (E2, tk2, evs)"
  shows "(TTL tk - 1 > 0 \<longrightarrow> P tk2 = P tk \<and> D tk2 = 1)
       \<and> (\<not> TTL tk - 1 > 0 \<longrightarrow> P tk2 = 0 \<and> D tk2 = 0)"
proof (cases "TTL tk - 1 > 0")
  case True
  from assms True show ?thesis unfolding act_success_rearm [OF True] by auto
next
  case False
  from assms False show ?thesis unfolding act_success_done [OF False] by auto
qed

lemma act_fail_frame:
  assumes "act_fail Em Ev bufv tk = (E2, buf2, tk2, evs)"
  shows "P tk2 = P tk \<and> D tk2 = D tk \<and> TTL tk2 = TTL tk \<and> K tk2 = K tk \<and> H tk2 = H tk"
proof (cases "FAILCOUNT tk + 1 < K tk")
  case True
  from act_fail_below_elim [OF True assms] show ?thesis by simp
next
  case False
  then have ge: "FAILCOUNT tk + 1 \<ge> K tk" by simp
  from act_fail_escalate_elim [OF ge assms] show ?thesis by simp
qed

lemma tick_TTL:
  "TTL (task (fst (tick Hs Em st)))
     = (if act_succeeded (snd (tick Hs Em st)) then TTL (task st) - 1 else TTL (task st))"
proof (cases rule: tick_cases [of st Hs Em])
  case parked
  then show ?thesis by (simp add: act_succeeded_def events_of_def)
next
  case (pass S2 new prev)
  then show ?thesis by (simp add: act_succeeded_def events_of_def)
next
  case (jump S2 prev)
  then show ?thesis by (simp add: act_succeeded_def events_of_def)
next
  case (success S2 prev E2 tk' evs)
  with act_success_shape [OF success(8), of 0] show ?thesis
    by (simp add: act_succeeded_def events_of_def)
next
  case (fail S2 prev E2 buf' tk' evs)
  with act_fail_events [OF fail(7), of 0] act_fail_frame [OF fail(7)] show ?thesis
    by (simp add: act_succeeded_def events_of_def)
qed

lemma tick_P:
  "(P (task (fst (tick Hs Em st))) \<noteq> P (task st)
      \<longleftrightarrow> act_succeeded (snd (tick Hs Em st)) \<and> TTL (task (fst (tick Hs Em st))) \<le> 0)
   \<and> ((P (task st) = 1 \<and> P (task (fst (tick Hs Em st))) = 0 \<and> D (task (fst (tick Hs Em st))) = 0)
      \<longleftrightarrow> act_succeeded (snd (tick Hs Em st)) \<and> TTL (task (fst (tick Hs Em st))) \<le> 0)"
proof (cases rule: tick_cases [of st Hs Em])
  case parked
  then show ?thesis by (simp add: act_succeeded_def events_of_def)
next
  case (pass S2 new prev)
  then show ?thesis by (simp add: act_succeeded_def events_of_def)
next
  case (jump S2 prev)
  then show ?thesis by (simp add: act_succeeded_def events_of_def)
next
  case (success S2 prev E2 tk' evs)
  with act_success_shape [OF success(8), of 0] act_success_PD [OF success(8)] show ?thesis
    by (auto simp: act_succeeded_def events_of_def)
next
  case (fail S2 prev E2 buf' tk' evs)
  with act_fail_events [OF fail(7), of 0] act_fail_frame [OF fail(7)] show ?thesis
    by (simp add: act_succeeded_def events_of_def)
qed

lemma tick_inactive:
  assumes "P (task st) = 0"
  shows "P (task (fst (tick Hs Em st))) = 0 \<and> ARRIVE_C \<notin> set (events_of (snd (tick Hs Em st)))
       \<and> (\<not> PARK (task st) > 0
            \<longrightarrow> baton_pos (fst (tick Hs Em st)) = step_baton (baton_pos st) (DIR (task st)))"
proof (cases rule: tick_cases [of st Hs Em])
  case parked
  with assms show ?thesis by (simp add: events_of_def)
next
  case (pass S2 new prev)
  with assms show ?thesis by (auto simp: events_of_def move_baton_def Let_def)
next
  case (jump S2 prev)
  with assms show ?thesis by simp
next
  case (success S2 prev E2 tk' evs)
  with assms show ?thesis by simp
next
  case (fail S2 prev E2 buf' tk' evs)
  with assms show ?thesis by simp
qed

lemma trace_inactive:
  assumes "P (task st) = 0"
  shows "list_all (\<lambda>(out, s). P (task s) = 0 \<and> ARRIVE_C \<notin> set (events_of out)) (trace k Hs Em st)"
  using assms
proof (induction k arbitrary: st)
  case 0
  then show ?case by simp
next
  case (Suc k)
  obtain st' out where t: "tick Hs Em st = (st', out)" by (cases "tick Hs Em st") auto
  from tick_inactive [OF Suc.prems, of Hs Em] t
  have "P (task st') = 0" "ARRIVE_C \<notin> set (events_of out)" by simp_all
  with Suc.IH [of st'] t show ?case by simp
qed

lemma run_TTL_constant: "TTL (task (run_state Hs Em ttl n)) = ttl"
proof (induction n)
  case 0
  show ?case by (simp add: init_state_eq new_Task_def)
next
  case (Suc n)
  from ring_tick_not_success [OF run_ring_inv [of Hs Em ttl n], of Hs Em] Suc show ?case
    by (simp add: tick_TTL)
qed

subsection \<open>Runs of failed attempts\<close>

lemma tick_kinds [case_names quiet success below escalate]:
  obtains
    (quiet) "\<not> act_failed (snd (tick Hs Em st))" "\<not> act_succeeded (snd (tick Hs Em st))"
      "buf (fst (tick Hs Em st)) = buf st"
      "FAILCOUNT (task (fst (tick Hs Em st))) = FAILCOUNT (task st)"
      "K (task (fst (tick Hs Em st))) = K (task st)"
      "H (task (fst (tick Hs Em st))) = H (task st)"
      "DIR (task (fst (tick Hs Em st))) = DIR (task st)"
      "filter is_REV_DIR (events_of (snd (tick Hs Em st))) = []"
      "filter is_ESCALATE (events_of (snd (tick Hs Em st))) = []"
  | (success) "act_succeeded (snd (tick Hs Em st))"
  | (below) "act_failed (snd (tick Hs Em st))" "FAILCOUNT (task st) + 1 < K (task st)"
      "buf (fst (tick Hs Em st)) = buf st"
      "FAILCOUNT (task (fst (tick Hs Em st))) = FAILCOUNT (task st) + 1"
      "K (task (fst (tick Hs Em st))) = K (task st)"
      "H (task (fst (tick Hs Em st))) = H (task st)"
      "DIR (task (fst (tick Hs Em st))) = flip_dir (DIR (task st))"
      "length (filter is_REV_DIR (events_of (snd (tick Hs Em st)))) = 1"
      "filter is_ESCALATE (events_of (snd (tick Hs Em st))) = []"
  | (escalate) "act_failed (snd (tick Hs Em st))" "FAILCOUNT (task st) + 1 \<ge> K (task st)"
      "buf (fst (tick Hs Em st)) = (buf st)[2 := - (buf st ! 2)]"
      "PARK (task (fst (tick Hs Em st))) = H (task st)"
      "DIR (task (fst (tick Hs Em st))) = flip_dir (DIR (task st))"
      "length (filter is_REV_DIR (events_of (snd (tick Hs Em st)))) = 1"
      "length (filter is_ESCALATE (events_of (snd (tick Hs Em st)))) = 1"
      "escalated (snd (tick Hs Em st))"
proof (cases rule: tick_cases [of st Hs Em])
  case parked
  then show ?thesis by (intro quiet) (simp_all add: act_failed_def act_succeeded_def events_of_def)
next
  case (pass S2 new prev)
  then show ?thesis by (intro quiet) (simp_all add: act_failed_def act_succeeded_def events_of_def)
next
  case (jump S2 prev)
  then show ?thesis by (intro quiet) (simp_all add: act_failed_def act_succeeded_def events_of_def)
next
  case (success S2 prev E2 tk' evs)
  with act_success_shape [OF success(8), of 0] have "act_succeeded (snd (tick Hs Em st))"
    by (simp add: act_succeeded_def events_of_def)
  then show ?thesis by (rule that(2))
next
  case (fail S2 prev E2 buf' tk' evs)
  show ?thesis
  proof (cases "FAILCOUNT (task st) + 1 < K (task st)")
    case True
    note fx = act_fail_below_elim [OF True fail(7)]
    from fx True show ?thesis
      unfolding fail(8) by (intro below) (simp_all add: act_failed_def events_of_def fail(8))
  next
    case False
    then have ge: "FAILCOUNT (task st) + 1 \<ge> K (task st)" by simp
    note fx = act_fail_escalate_elim [OF ge fail(7)]
    from fx ge show ?thesis
      by (intro escalate) (simp_all add: act_failed_def escalated_def events_of_def fail(8))
  qed
qed

lemma trace_Suc:
  "trace (Suc n) Hs Em st
     = (snd (tick Hs Em st), fst (tick Hs Em st)) # trace n Hs Em (fst (tick Hs Em st))"
  by (simp split: prod.splits)

lemma trace_events_Cons:
  "trace_events ((out, s) # tr) = events_of out @ trace_events tr"
  by (simp add: trace_events_def)

lemma outputs_Cons: "outputs ((out, s) # tr) = out # outputs tr"
  by (simp add: outputs_def)

lemma outputs_Nil: "outputs [] = []"
  by (simp add: outputs_def)

lemma outputs_empty: "outputs tr = [] \<longleftrightarrow> tr = []"
  by (simp add: outputs_def)

lemma last_outputs: "tr \<noteq> [] \<Longrightarrow> fst (last tr) = last (outputs tr)"
  by (simp add: outputs_def last_map)

lemma flip_dir_neq: "flip_dir d \<noteq> d"
  by (simp add: flip_dir_def)

lemma flip_dir_thrice: "flip_dir (flip_dir (flip_dir d)) = flip_dir d"
  by (simp add: flip_dir_def)

lemma fail_streak:
  assumes "length (buf st) = 6"
    and "FAILCOUNT (task st) + int (length (filter act_failed (outputs (trace n Hs Em st))))
           = K (task st)"
    and "filter act_failed (outputs (trace n Hs Em st)) \<noteq> []"
    and "\<not> list_ex act_succeeded (outputs (trace n Hs Em st))"
    and "act_failed (fst (last (trace n Hs Em st)))"
  shows "DIR (task (snd (last (trace n Hs Em st))))
           = (flip_dir ^^ length (filter act_failed (outputs (trace n Hs Em st)))) (DIR (task st))
       \<and> length (filter is_REV_DIR (trace_events (trace n Hs Em st)))
           = length (filter act_failed (outputs (trace n Hs Em st)))
       \<and> length (filter is_ESCALATE (trace_events (trace n Hs Em st))) = 1
       \<and> escalated (fst (last (trace n Hs Em st)))
       \<and> buf (snd (last (trace n Hs Em st))) ! 2 = - (buf st ! 2)
       \<and> PARK (task (snd (last (trace n Hs Em st)))) = H (task st)"
  using assms
proof (induction n arbitrary: st)
  case 0
  then show ?case by (simp add: outputs_Nil)
next
  case (Suc n)
  let ?st' = "fst (tick Hs Em st)" and ?out = "snd (tick Hs Em st)"
  let ?tr' = "trace n Hs Em ?st'"
  note tr = trace_Suc [of n Hs Em st]
  show ?case
  proof (cases rule: tick_kinds [of Hs Em st])
    case quiet
    from Suc.prems(3) quiet(1) have ne: "filter act_failed (outputs ?tr') \<noteq> []"
      unfolding tr by (simp add: outputs_Cons)
    then have ne': "?tr' \<noteq> []" by (auto simp: outputs_Nil)
    have IH: "DIR (task (snd (last ?tr')))
           = (flip_dir ^^ length (filter act_failed (outputs ?tr'))) (DIR (task ?st'))
       \<and> length (filter is_REV_DIR (trace_events ?tr'))
           = length (filter act_failed (outputs ?tr'))
       \<and> length (filter is_ESCALATE (trace_events ?tr')) = 1
       \<and> escalated (fst (last ?tr'))
       \<and> buf (snd (last ?tr')) ! 2 = - (buf ?st' ! 2)
       \<and> PARK (task (snd (last ?tr'))) = H (task ?st')"
    proof (rule Suc.IH)
      show "length (buf ?st') = 6" using Suc.prems(1) quiet(3) by simp
      show "FAILCOUNT (task ?st') + int (length (filter act_failed (outputs ?tr'))) = K (task ?st')"
        using Suc.prems(2) quiet unfolding tr by (simp add: outputs_Cons)
      show "filter act_failed (outputs ?tr') \<noteq> []" by (rule ne)
      show "\<not> list_ex act_succeeded (outputs ?tr')" using Suc.prems(4) unfolding tr by (simp add: outputs_Cons)
      show "act_failed (fst (last ?tr'))" using Suc.prems(5) ne' unfolding tr by simp
    qed
    with quiet ne' show ?thesis
      unfolding tr by (simp add: trace_events_Cons outputs_Cons)
  next
    case success
    with Suc.prems(4) show ?thesis unfolding tr by (simp add: outputs_Cons)
  next
    case below
    from Suc.prems(2) below(1,2) have ne: "filter act_failed (outputs ?tr') \<noteq> []"
      unfolding tr by (auto simp: outputs_Cons)
    then have ne': "?tr' \<noteq> []" by (auto simp: outputs_Nil)
    have IH: "DIR (task (snd (last ?tr')))
           = (flip_dir ^^ length (filter act_failed (outputs ?tr'))) (DIR (task ?st'))
       \<and> length (filter is_REV_DIR (trace_events ?tr'))
           = length (filter act_failed (outputs ?tr'))
       \<and> length (filter is_ESCALATE (trace_events ?tr')) = 1
       \<and> escalated (fst (last ?tr'))
       \<and> buf (snd (last ?tr')) ! 2 = - (buf ?st' ! 2)
       \<and> PARK (task (snd (last ?tr'))) = H (task ?st')"
    proof (rule Suc.IH)
      show "length (buf ?st') = 6" using Suc.prems(1) below(3) by simp
      show "FAILCOUNT (task ?st') + int (length (filter act_failed (outputs ?tr'))) = K (task ?st')"
        using Suc.prems(2) below unfolding tr by (simp add: outputs_Cons)
      show "filter act_failed (outputs ?tr') \<noteq> []" by (rule ne)
      show "\<not> list_ex act_succeeded (outputs ?tr')" using Suc.prems(4) unfolding tr by (simp add: outputs_Cons)
      show "act_failed (fst (last ?tr'))" using Suc.prems(5) ne' unfolding tr by simp
    qed
    with below ne' show ?thesis
      unfolding tr by (simp add: trace_events_Cons outputs_Cons funpow_swap1)
  next
    case escalate
    define m where "m = length (filter act_failed (outputs ?tr'))"
    from Suc.prems(2) escalate(1) have "FAILCOUNT (task st) + (1 + int m) = K (task st)"
      unfolding tr m_def by (simp add: outputs_Cons)
    with escalate(2) have "m = 0" by arith
    then have none: "filter act_failed (outputs ?tr') = []" by (simp add: m_def)
    have emp: "?tr' = []"
    proof (rule ccontr)
      assume ne': "?tr' \<noteq> []"
      with Suc.prems(5) have "act_failed (fst (last ?tr'))" unfolding tr by simp
      moreover from ne' have "fst (last ?tr') \<in> set (outputs ?tr')"
        by (simp add: last_outputs outputs_empty)
      ultimately have "fst (last ?tr') \<in> set (filter act_failed (outputs ?tr'))" by simp
      with none show False by simp
    qed
    from escalate Suc.prems(1) show ?thesis
      unfolding tr emp by (simp add: trace_events_Cons trace_events_def outputs_Cons outputs_Nil)
  qed
qed

subsection \<open>Well-formed states stay well-formed\<close>

lemma tick_wf:
  assumes "wf st"
  shows "wf (fst (tick Hs Em st))"
proof -
  from assms have le: "length (decay (E st)) = 6" and lb: "length (buf st) = 6"
    by (simp_all add: wf_def length_decay)
  show ?thesis
  proof (cases rule: tick_cases [of st Hs Em])
    case parked
    with assms le show ?thesis by (simp add: wf_def)
  next
    case (pass S2 new prev)
    with assms le move_baton_wf [OF assms pass(2)] show ?thesis by (simp add: wf_def)
  next
    case (jump S2 prev)
    with assms le move_baton_wf [OF assms jump(2)] show ?thesis by (simp add: wf_def)
  next
    case (success S2 prev E2 tk' evs)
    with assms le move_baton_wf [OF assms success(2)] act_success_shape [OF success(8), of 0]
    show ?thesis by (simp add: wf_def)
  next
    case (fail S2 prev E2 buf' tk' evs)
    from act_fail_shape [OF fail(7)] le lb have "length E2 = 6" "length buf' = 6" by auto
    with fail(8) move_baton_wf [OF assms fail(2)] show ?thesis by (simp add: wf_def)
  qed
qed

lemma run_wf: "wf (run_state Hs Em ttl n)"
  by (rule ring_inv_wf [OF run_ring_inv])

lemma ring_buf_shape:
  assumes "bufv = released \<or> bufv = released[2 := - 1]"
  shows "bufv[nat (idx ''C'') := domain_sign (idx ''C'')] = map domain_sign [0 .. N - 1]"
  using assms
  by (auto simp: released_def idx_A idx_B idx_C N_6 upto.simps domain_sign_def)

lemma run_hesitation:
  assumes "act_failed (run_output Hs Em ttl n)"
  shows "E (run_state Hs Em ttl (Suc n)) ! nat (idx ''C'')
           = min (decay (E (run_state Hs Em ttl n)) ! nat (idx ''C'') + 1) Em"
proof -
  let ?st = "run_state Hs Em ttl n"
  have inv: "ring_inv ?st" by (rule run_ring_inv)
  then have le: "length (decay (E ?st)) = 6" by (simp add: ring_inv_def length_decay)
  have out: "run_output Hs Em ttl n = snd (tick Hs Em ?st)"
    and nxt: "run_state Hs Em ttl (Suc n) = fst (tick Hs Em ?st)"
    by (simp_all add: run_output_def)
  show ?thesis
  proof (cases rule: tick_cases [of ?st Hs Em])
    case parked
    with assms show ?thesis by (simp add: out act_failed_def events_of_def)
  next
    case (pass S2 new prev)
    with assms show ?thesis by (simp add: out act_failed_def events_of_def)
  next
    case (jump S2 prev)
    with assms show ?thesis by (simp add: out act_failed_def events_of_def)
  next
    case (success S2 prev E2 tk' evs)
    with ring_no_success [OF inv success(2)] show ?thesis by simp
  next
    case (fail S2 prev E2 buf' tk' evs)
    from act_fail_shape [OF fail(7)] le show ?thesis
      unfolding nxt fail(8) by (simp add: idx_C)
  qed
qed

lemma run_cap_0_8: "E (run_state 3 0 3 8) = [0, 0, 0, 0, 0, 0]"
  by code_simp

lemma run_cap_0_7: "decay (E (run_state 3 0 3 7)) = [0, 0, 0, 0, 0, 0]"
  by code_simp

lemma out_cap_0_7: "act_failed (run_output 3 0 3 7)"
  by code_simp

subsection \<open>What raises in \<^verbatim>\<open>simulate\<close>, and when\<close>










lemma events_text_ok:
  assumes "\<forall>e \<in> set evs. event_text e = Inr ()"
  shows "events_text evs = Inr ()"
  using assms by (induction evs) simp_all











section \<open>Claims\<close>

text \<open>
  C5 (park semantics). On a tick that begins with \<open>PARK > 0\<close> the shadows are decayed first:
  the new levels are \<open>decay\<close> of the old ones, which for six levels means that every level
  above 0 goes down by exactly one and every other level stays. Then \<open>PARK\<close> goes down by
  exactly one and the tick stops: the baton position, the direction, the committed array
  \<open>S\<close> and the buffer \<open>buf\<close> are unchanged, every other field of the task too, and the tick
  reports the park marker and no event, so no \<open>ARRIVE_C\<close>. The second theorem evaluates a
  parked state with the levels 0, 3, 2, 1, 0, 6, and the parked state after tick 20 of the
  default run.
\<close>

theorem park_tick_frame:
  assumes "PARK (task st) > 0"
  shows "E (fst (tick Hs Em st)) = decay (E st)
       \<and> (length (E st) = 6
            \<longrightarrow> E (fst (tick Hs Em st)) = map (\<lambda>v. if v > 0 then v - 1 else v) (E st))
       \<and> PARK (task (fst (tick Hs Em st))) = PARK (task st) - 1
       \<and> baton_pos (fst (tick Hs Em st)) = baton_pos st
       \<and> DIR (task (fst (tick Hs Em st))) = DIR (task st)
       \<and> S (fst (tick Hs Em st)) = S st
       \<and> buf (fst (tick Hs Em st)) = buf st
       \<and> task (fst (tick Hs Em st)) = (task st)\<lparr>PARK := PARK (task st) - 1\<rparr>
       \<and> snd (tick Hs Em st) = PARK_TICK
       \<and> ARRIVE_C \<notin> set (events_of (snd (tick Hs Em st)))"
proof -
  have "length (E st) = 6 \<longrightarrow> decay (E st) = map (\<lambda>v. if v > 0 then v - 1 else v) (E st)"
    by (simp add: decay_map)
  then show ?thesis
    by (simp add: tick_parked [OF assms] events_of_def)
qed

theorem park_tick_frame_witness:
  "PARK (task \<lparr>S = [1, 1, 0, - 1, - 1, - 1], E = [0, 3, 2, 1, 0, 6],
       buf = [1, 1, - 1, - 1, - 1, - 1], baton_pos = 2,
       task = \<lparr>P = 1, D = 0, TTL = 3, FAILCOUNT = 0, DIR = ''CCW'', K = 3, H = 2, PARK = 2\<rparr>\<rparr>) > 0
   \<and> length (E \<lparr>S = [1, 1, 0, - 1, - 1, - 1], E = [0, 3, 2, 1, 0, 6],
       buf = [1, 1, - 1, - 1, - 1, - 1], baton_pos = 2,
       task = \<lparr>P = 1, D = 0, TTL = 3, FAILCOUNT = 0, DIR = ''CCW'', K = 3, H = 2, PARK = 2\<rparr>\<rparr>) = 6
   \<and> E (fst (tick 3 6 \<lparr>S = [1, 1, 0, - 1, - 1, - 1], E = [0, 3, 2, 1, 0, 6],
       buf = [1, 1, - 1, - 1, - 1, - 1], baton_pos = 2,
       task = \<lparr>P = 1, D = 0, TTL = 3, FAILCOUNT = 0, DIR = ''CCW'', K = 3, H = 2, PARK = 2\<rparr>\<rparr>)) = [0, 2, 1, 0, 0, 5]
   \<and> PARK (task (fst (tick 3 6 \<lparr>S = [1, 1, 0, - 1, - 1, - 1], E = [0, 3, 2, 1, 0, 6],
       buf = [1, 1, - 1, - 1, - 1, - 1], baton_pos = 2,
       task = \<lparr>P = 1, D = 0, TTL = 3, FAILCOUNT = 0, DIR = ''CCW'', K = 3, H = 2, PARK = 2\<rparr>\<rparr>))) = 1
   \<and> snd (tick 3 6 \<lparr>S = [1, 1, 0, - 1, - 1, - 1], E = [0, 3, 2, 1, 0, 6],
       buf = [1, 1, - 1, - 1, - 1, - 1], baton_pos = 2,
       task = \<lparr>P = 1, D = 0, TTL = 3, FAILCOUNT = 0, DIR = ''CCW'', K = 3, H = 2, PARK = 2\<rparr>\<rparr>) = PARK_TICK
   \<and> PARK (task (run_state 3 6 3 20)) > 0
   \<and> length (E (run_state 3 6 3 20)) = 6
   \<and> E (run_state 3 6 3 20) = [0, 0, 1, 0, 0, 0]
   \<and> E (fst (tick 3 6 (run_state 3 6 3 20))) = [0, 0, 0, 0, 0, 0]
   \<and> PARK (task (fst (tick 3 6 (run_state 3 6 3 20)))) = 1
   \<and> baton_pos (fst (tick 3 6 (run_state 3 6 3 20))) = 2
   \<and> DIR (task (fst (tick 3 6 (run_state 3 6 3 20)))) = ''CCW''
   \<and> S (fst (tick 3 6 (run_state 3 6 3 20))) = [1, 1, 0, - 1, - 1, - 1]
   \<and> buf (fst (tick 3 6 (run_state 3 6 3 20))) = [1, 1, - 1, - 1, - 1, - 1]
   \<and> snd (tick 3 6 (run_state 3 6 3 20)) = PARK_TICK"
proof -
  let ?a = "\<lparr>S = [1, 1, 0, - 1, - 1, - 1], E = [0, 3, 2, 1, 0, 6],
       buf = [1, 1, - 1, - 1, - 1, - 1], baton_pos = 2,
       task = \<lparr>P = 1, D = 0, TTL = 3, FAILCOUNT = 0, DIR = ''CCW'', K = 3, H = 2, PARK = 2\<rparr>\<rparr>"
  have ha: "PARK (task ?a) > 0" and la: "length (E ?a) = 6"
    by simp_all
  have hb: "PARK (task (run_state 3 6 3 20)) > 0" and lb: "length (E (run_state 3 6 3 20)) = 6"
    and eb: "E (run_state 3 6 3 20) = [0, 0, 1, 0, 0, 0]"
    and fb: "baton_pos (run_state 3 6 3 20) = 2" "DIR (task (run_state 3 6 3 20)) = ''CCW''"
      "S (run_state 3 6 3 20) = [1, 1, 0, - 1, - 1, - 1]"
      "buf (run_state 3 6 3 20) = [1, 1, - 1, - 1, - 1, - 1]"
      "PARK (task (run_state 3 6 3 20)) = 2"
    by (simp_all add: run_default_20)
  note a = park_tick_frame [OF ha, of 3 6]
  note b = park_tick_frame [OF hb, of 3 6]
  from a ha la have ta: "E (fst (tick 3 6 ?a)) = [0, 2, 1, 0, 0, 5]"
      "PARK (task (fst (tick 3 6 ?a))) = 1" "snd (tick 3 6 ?a) = PARK_TICK"
    by (simp_all add: decay_six)
  from b lb eb fb have tb: "E (fst (tick 3 6 (run_state 3 6 3 20))) = [0, 0, 0, 0, 0, 0]"
      "PARK (task (fst (tick 3 6 (run_state 3 6 3 20)))) = 1"
      "baton_pos (fst (tick 3 6 (run_state 3 6 3 20))) = 2"
      "DIR (task (fst (tick 3 6 (run_state 3 6 3 20)))) = ''CCW''"
      "S (fst (tick 3 6 (run_state 3 6 3 20))) = [1, 1, 0, - 1, - 1, - 1]"
      "buf (fst (tick 3 6 (run_state 3 6 3 20))) = [1, 1, - 1, - 1, - 1, - 1]"
      "snd (tick 3 6 (run_state 3 6 3 20)) = PARK_TICK"
    by (simp_all add: decay_six)
  from ha la ta hb lb eb tb show ?thesis by blast
qed

text \<open>
  C1 (single-baton invariant). In the initial state and after every tick, for every
  configuration, the committed array has six entries, exactly one of them is 0, it is the
  entry at the baton's position, and every entry is 0, +1 or -1: so every other position
  holds +1 or -1.
\<close>

theorem single_baton_invariant:
  "length (S (run_state Hs Em ttl n)) = 6
   \<and> length (filter (\<lambda>v. v = 0) (S (run_state Hs Em ttl n))) = 1
   \<and> 0 \<le> baton_pos (run_state Hs Em ttl n) \<and> baton_pos (run_state Hs Em ttl n) < 6
   \<and> S (run_state Hs Em ttl n) ! nat (baton_pos (run_state Hs Em ttl n)) = 0
   \<and> list_all (\<lambda>v. v = 0 \<or> v = 1 \<or> v = - 1) (S (run_state Hs Em ttl n))"
proof -
  let ?st = "run_state Hs Em ttl n"
  have inv: "ring_inv ?st" by (rule run_ring_inv)
  then have p: "0 \<le> baton_pos ?st" "baton_pos ?st < 6"
    and Sv: "S ?st = released[nat (baton_pos ?st) := 0]"
    by (simp_all add: ring_inv_def)
  from ring_S_shape [OF p Sv] p show ?thesis by blast
qed

text \<open>
  C10 (released tiles keep their domain sign). In every state of a run the committed array
  is the list of domain signs with the baton's tile set to 0: no released tile is ever
  inverted. The buffer is the list of domain signs except possibly at \<open>C\<close>, the only entry
  escalation flips. Hence the value \<open>prev\<close> that the move reads at its destination is the domain
  sign of that tile, one of +1 and -1, and the guard \<^verbatim>\<open>prev in (+1, -1)\<close> of the arrival
  test is always true: the baton arrives at \<open>C\<close> exactly when its destination is \<open>C\<close>.
\<close>

theorem released_polarity_is_domain_sign:
  "S (run_state Hs Em ttl n)
     = (map domain_sign [0 .. N - 1])[nat (baton_pos (run_state Hs Em ttl n)) := 0]
   \<and> (buf (run_state Hs Em ttl n))[nat (idx ''C'') := domain_sign (idx ''C'')]
       = map domain_sign [0 .. N - 1]
   \<and> (case move_baton (run_state Hs Em ttl n) of (S2, new, prev) \<Rightarrow>
        prev = domain_sign new \<and> (prev = 1 \<or> prev = - 1)
        \<and> ((new = idx ''C'' \<and> prev \<in> {1, - 1}) \<longleftrightarrow> new = idx ''C''))"
proof -
  let ?st = "run_state Hs Em ttl n"
  have inv: "ring_inv ?st" by (rule run_ring_inv)
  then have p: "0 \<le> baton_pos ?st" "baton_pos ?st < 6"
    and Sv: "S ?st = released[nat (baton_pos ?st) := 0]"
    and bf: "buf ?st = released \<or> buf ?st = released[2 := - 1]"
    by (simp_all add: ring_inv_def)
  from ring_S_shape [OF p Sv] have a: "S ?st = (map domain_sign [0 .. N - 1])[nat (baton_pos ?st) := 0]"
    by blast
  note b = ring_buf_shape [OF bf]
  obtain S2 new prev where mv: "move_baton ?st = (S2, new, prev)"
    by (cases "move_baton ?st") auto
  from mv move_baton_ring [OF inv] have "prev = domain_sign new" by auto
  with ring_move [OF inv mv] a b show ?thesis
    unfolding mv by auto
qed

text \<open>
  C2 (two-hop boundary evaluation). \<open>boundary_strict_effective S buf i\<close> is true iff the
  effective values of the two ring neighbours of \<open>i\<close> add up to 0, where the effective
  value of \<open>j\<close> is \<open>buf[j]\<close> when \<open>S[j] = 0\<close> and \<open>S[j]\<close> otherwise. On every act attempt the
  baton is at \<open>C\<close> and the tick reports, after \<open>ARRIVE_C\<close>, the two tests at
  \<open>left(C) = B\<close> and \<open>right(C) = D\<close>, evaluated on the array \<open>S\<close> after the move and on the
  buffer before the tick: the first is \<open>eff(A) + eff(C) = 0\<close>, the second
  \<open>eff(C) + eff(E) = 0\<close>, with \<open>eff(C) = buf[C]\<close> since the baton is on \<open>C\<close>. The attempt
  succeeds iff both hold and fails otherwise. The test around \<open>C\<close> itself,
  \<open>eff(B) + eff(D) = 0\<close>, plays no part: at tick 8 of the default run it is true while the
  attempt fails (second theorem).
\<close>

theorem boundary_two_hop:
  assumes "wf st" and "act_attempted (snd (tick Hs Em st))"
  shows "(boundary_strict_effective Sv bufv i \<longleftrightarrow> eff Sv bufv (left i) + eff Sv bufv (right i) = 0)
     \<and> eff Sv bufv j = (if Sv ! nat j = 0 then bufv ! nat j else Sv ! nat j)
     \<and> left (idx ''C'') = idx ''B'' \<and> right (idx ''C'') = idx ''D''
     \<and> baton_pos (fst (tick Hs Em st)) = idx ''C''
     \<and> take 2 (events_of (snd (tick Hs Em st)))
         = [ARRIVE_C,
            BOUNDARY (boundary_strict_effective (S (fst (tick Hs Em st))) (buf st) (idx ''B''))
                     (boundary_strict_effective (S (fst (tick Hs Em st))) (buf st) (idx ''D''))]
     \<and> (boundary_strict_effective (S (fst (tick Hs Em st))) (buf st) (idx ''B'')
          \<longleftrightarrow> eff (S (fst (tick Hs Em st))) (buf st) (idx ''A'')
              + eff (S (fst (tick Hs Em st))) (buf st) (idx ''C'') = 0)
     \<and> (boundary_strict_effective (S (fst (tick Hs Em st))) (buf st) (idx ''D'')
          \<longleftrightarrow> eff (S (fst (tick Hs Em st))) (buf st) (idx ''C'')
              + eff (S (fst (tick Hs Em st))) (buf st) (idx ''E'') = 0)
     \<and> eff (S (fst (tick Hs Em st))) (buf st) (idx ''C'') = buf st ! nat (idx ''C'')
     \<and> (act_succeeded (snd (tick Hs Em st))
          \<longleftrightarrow> boundary_strict_effective (S (fst (tick Hs Em st))) (buf st) (idx ''B'')
              \<and> boundary_strict_effective (S (fst (tick Hs Em st))) (buf st) (idx ''D''))
     \<and> (act_failed (snd (tick Hs Em st))
          \<longleftrightarrow> \<not> (boundary_strict_effective (S (fst (tick Hs Em st))) (buf st) (idx ''B'')
              \<and> boundary_strict_effective (S (fst (tick Hs Em st))) (buf st) (idx ''D'')))"
proof -
  have defs: "(boundary_strict_effective Sv bufv i \<longleftrightarrow> eff Sv bufv (left i) + eff Sv bufv (right i) = 0)
     \<and> eff Sv bufv j = (if Sv ! nat j = 0 then bufv ! nat j else Sv ! nat j)
     \<and> left (idx ''C'') = idx ''B'' \<and> right (idx ''C'') = idx ''D''"
    by (simp add: boundary_strict_effective_def eff_def idx_B idx_C idx_D left_2 right_2)
  have hop: "(boundary_strict_effective Sw bufw 1 \<longleftrightarrow> eff Sw bufw 0 + eff Sw bufw 2 = 0)
      \<and> (boundary_strict_effective Sw bufw 3 \<longleftrightarrow> eff Sw bufw 2 + eff Sw bufw 4 = 0)" for Sw bufw
    by (simp add: boundary_strict_effective_def left_def right_def N_6)
  have rest: "baton_pos (fst (tick Hs Em st)) = 2
     \<and> take 2 (events_of (snd (tick Hs Em st)))
         = [ARRIVE_C,
            BOUNDARY (boundary_strict_effective (S (fst (tick Hs Em st))) (buf st) 1)
                     (boundary_strict_effective (S (fst (tick Hs Em st))) (buf st) 3)]
     \<and> eff (S (fst (tick Hs Em st))) (buf st) 2 = buf st ! 2
     \<and> (act_succeeded (snd (tick Hs Em st))
          \<longleftrightarrow> boundary_strict_effective (S (fst (tick Hs Em st))) (buf st) 1
              \<and> boundary_strict_effective (S (fst (tick Hs Em st))) (buf st) 3)
     \<and> (act_failed (snd (tick Hs Em st))
          \<longleftrightarrow> \<not> (boundary_strict_effective (S (fst (tick Hs Em st))) (buf st) 1
              \<and> boundary_strict_effective (S (fst (tick Hs Em st))) (buf st) 3))"
  proof (cases rule: tick_cases [of st Hs Em])
    case parked
    with assms(2) show ?thesis by (simp add: act_attempted_def events_of_def)
  next
    case (pass S2 new prev)
    with assms(2) show ?thesis by (simp add: act_attempted_def events_of_def)
  next
    case (jump S2 prev)
    with assms(2) show ?thesis by (simp add: act_attempted_def events_of_def)
  next
    case (success S2 prev E2 tk' evs)
    from move_baton_wf [OF assms(1) success(2)] have "S2 ! 2 = 0" by simp
    with success act_success_shape [OF success(8)] show ?thesis
      by (simp add: act_succeeded_def act_failed_def events_of_def eff_def)
  next
    case (fail S2 prev E2 buf' tk' evs)
    from move_baton_wf [OF assms(1) fail(2)] have "S2 ! 2 = 0" by simp
    with fail act_fail_events [OF fail(7)] show ?thesis
      by (simp add: act_succeeded_def act_failed_def events_of_def eff_def)
  qed
  from defs hop rest show ?thesis
    by (simp add: idx_A idx_B idx_C idx_D idx_E)
qed

theorem boundary_two_hop_witness:
  "wf (run_state 3 6 3 7) \<and> act_attempted (snd (tick 3 6 (run_state 3 6 3 7)))
   \<and> baton_pos (fst (tick 3 6 (run_state 3 6 3 7))) = idx ''C''
   \<and> take 2 (events_of (snd (tick 3 6 (run_state 3 6 3 7)))) = [ARRIVE_C, BOUNDARY False True]
   \<and> eff (S (fst (tick 3 6 (run_state 3 6 3 7)))) (buf (run_state 3 6 3 7)) (idx ''A'') = 1
   \<and> eff (S (fst (tick 3 6 (run_state 3 6 3 7)))) (buf (run_state 3 6 3 7)) (idx ''C'') = 1
   \<and> eff (S (fst (tick 3 6 (run_state 3 6 3 7)))) (buf (run_state 3 6 3 7)) (idx ''E'') = - 1
   \<and> boundary_strict_effective (S (fst (tick 3 6 (run_state 3 6 3 7)))) (buf (run_state 3 6 3 7)) (idx ''C'')
   \<and> act_failed (snd (tick 3 6 (run_state 3 6 3 7)))"
proof -
  have h1: "wf (run_state 3 6 3 7)"
    by (simp add: run_default_7 wf_def)
  have h2: "act_attempted (snd (tick 3 6 (run_state 3 6 3 7)))"
    by (simp add: tick_default_8 act_attempted_def events_of_def)
  have b: "buf (run_state 3 6 3 7) = [1, 1, 1, - 1, - 1, - 1]"
    by (simp add: run_default_7)
  have one_hop: "boundary_strict_effective [1, 1, 0, - 1, - 1, - 1] [1, 1, 1, - 1, - 1, - 1] 2"
    by (simp add: boundary_strict_effective_def eff_def left_2 right_2)
  from boundary_two_hop [OF h1 h2, of "[1, 1, 0, - 1, - 1, - 1]" "[1, 1, 1, - 1, - 1, - 1]" 2 2]
    h1 h2 one_hop show ?thesis
    by (simp add: tick_default_8 b idx_A idx_C idx_E eff_def events_of_def act_failed_def)
qed

text \<open>
  C3 (escalation trigger). In every act-attempt tick of a run: the attempt fails with the
  incremented \<open>FAILCOUNT\<close> equal to the threshold \<open>K\<close> if and only if the tick reports
  \<open>ESCALATE\<close>, leaves \<open>PARK = H\<close> and \<open>FAILCOUNT = 0\<close> and has flipped the sign of \<open>buf[C]\<close>;
  this is also exactly when the tick reports \<open>FAIL\<close> with the value \<open>K\<close>. On a failed attempt
  whose incremented count is still below \<open>K\<close> none of the four effects occurs: no
  \<open>ESCALATE\<close>, \<open>PARK\<close> unchanged and different from \<open>H\<close>, \<open>FAILCOUNT\<close> incremented and not 0,
  \<open>buf\<close> unchanged.
\<close>

theorem escalation_trigger:
  assumes "act_attempted (run_output Hs Em ttl n)"
  shows "((act_failed (run_output Hs Em ttl n)
            \<and> FAILCOUNT (task (run_state Hs Em ttl n)) + 1 = K (task (run_state Hs Em ttl n)))
          \<longleftrightarrow> (escalated (run_output Hs Em ttl n)
            \<and> PARK (task (run_state Hs Em ttl (Suc n))) = H (task (run_state Hs Em ttl n))
            \<and> FAILCOUNT (task (run_state Hs Em ttl (Suc n))) = 0
            \<and> buf (run_state Hs Em ttl (Suc n)) ! nat (idx ''C'')
                = - (buf (run_state Hs Em ttl n) ! nat (idx ''C''))))
       \<and> ((act_failed (run_output Hs Em ttl n)
            \<and> FAILCOUNT (task (run_state Hs Em ttl n)) + 1 = K (task (run_state Hs Em ttl n)))
          \<longleftrightarrow> FAIL_TO (K (task (run_state Hs Em ttl n))) \<in> set (events_of (run_output Hs Em ttl n)))
       \<and> (act_failed (run_output Hs Em ttl n)
            \<and> FAILCOUNT (task (run_state Hs Em ttl n)) + 1 < K (task (run_state Hs Em ttl n))
          \<longrightarrow> \<not> escalated (run_output Hs Em ttl n)
            \<and> PARK (task (run_state Hs Em ttl (Suc n))) = PARK (task (run_state Hs Em ttl n))
            \<and> PARK (task (run_state Hs Em ttl (Suc n))) \<noteq> H (task (run_state Hs Em ttl n))
            \<and> FAILCOUNT (task (run_state Hs Em ttl (Suc n)))
                = FAILCOUNT (task (run_state Hs Em ttl n)) + 1
            \<and> FAILCOUNT (task (run_state Hs Em ttl (Suc n))) \<noteq> 0
            \<and> buf (run_state Hs Em ttl (Suc n)) = buf (run_state Hs Em ttl n))"
proof -
  let ?st = "run_state Hs Em ttl n"
  have inv: "ring_inv ?st" by (rule run_ring_inv)
  then have tk: "K (task ?st) = 3" "H (task ?st) = 2" "0 \<le> FAILCOUNT (task ?st)"
      "FAILCOUNT (task ?st) < 3" "0 \<le> PARK (task ?st)"
    and lb: "length (buf ?st) = 6"
    by (auto simp: ring_inv_def task_inv_def length_released)
  have out: "run_output Hs Em ttl n = snd (tick Hs Em ?st)"
    and nxt: "run_state Hs Em ttl (Suc n) = fst (tick Hs Em ?st)"
    by (simp_all add: run_output_def)
  show ?thesis
  proof (cases rule: tick_cases [of ?st Hs Em])
    case parked
    with assms show ?thesis by (simp add: out act_attempted_def events_of_def)
  next
    case (pass S2 new prev)
    with assms show ?thesis by (simp add: out act_attempted_def events_of_def)
  next
    case (jump S2 prev)
    with assms show ?thesis by (simp add: out act_attempted_def events_of_def)
  next
    case (success S2 prev E2 tk' evs)
    with ring_no_success [OF inv success(2)] show ?thesis by simp
  next
    case (fail S2 prev E2 buf' tk' evs)
    show ?thesis
    proof (cases "FAILCOUNT (task ?st) + 1 < K (task ?st)")
      case True
      note fx = act_fail_below_elim [OF True fail(7)]
      from fx True tk fail(1) show ?thesis
        unfolding out nxt fail(8)
        by (simp add: act_failed_def escalated_def events_of_def)
    next
      case False
      then have ge: "FAILCOUNT (task ?st) + 1 \<ge> K (task ?st)" by simp
      note fx = act_fail_escalate_elim [OF ge fail(7)]
      from fx ge tk lb show ?thesis
        unfolding out nxt fail(8)
        by (simp add: act_failed_def escalated_def events_of_def idx_C)
    qed
  qed
qed

theorem escalation_trigger_witness:
  "act_attempted (run_output 3 6 3 19) \<and> act_failed (run_output 3 6 3 19)
   \<and> FAILCOUNT (task (run_state 3 6 3 19)) + 1 = K (task (run_state 3 6 3 19))
   \<and> escalated (run_output 3 6 3 19)
   \<and> FAIL_TO 3 \<in> set (events_of (run_output 3 6 3 19))
   \<and> PARK (task (run_state 3 6 3 20)) = H (task (run_state 3 6 3 19))
   \<and> FAILCOUNT (task (run_state 3 6 3 20)) = 0
   \<and> buf (run_state 3 6 3 19) ! 2 = 1 \<and> buf (run_state 3 6 3 20) ! 2 = - 1
   \<and> act_attempted (run_output 3 6 3 7) \<and> act_failed (run_output 3 6 3 7)
   \<and> FAILCOUNT (task (run_state 3 6 3 7)) + 1 < K (task (run_state 3 6 3 7))
   \<and> \<not> escalated (run_output 3 6 3 7)
   \<and> PARK (task (run_state 3 6 3 8)) = 0 \<and> FAILCOUNT (task (run_state 3 6 3 8)) = 1
   \<and> buf (run_state 3 6 3 8) = buf (run_state 3 6 3 7)"
proof -
  have o19: "run_output 3 6 3 19 = MOVE_TICK [ARRIVE_C, BOUNDARY False True, HESITATE 1,
      REV_DIR ''CCW'', FAIL_TO 3, ESCALATE 2 (- 1)]"
    by (simp add: run_output_def tick_default_20)
  have o7: "run_output 3 6 3 7 = MOVE_TICK [ARRIVE_C, BOUNDARY False True, HESITATE 1,
      REV_DIR ''CCW'', FAIL_TO 1]"
    by (simp add: run_output_def tick_default_8)
  have h19: "act_attempted (run_output 3 6 3 19)" and h7: "act_attempted (run_output 3 6 3 7)"
    by (simp_all add: o19 o7 act_attempted_def events_of_def)
  from escalation_trigger [OF h19] escalation_trigger [OF h7] h19 h7 show ?thesis
    by (simp add: o19 o7 run_default_7 run_default_8 run_default_19 run_default_20
        act_failed_def escalated_def events_of_def)
qed

text \<open>
  C6 (act-success postcondition). Whenever a tick is a successful act attempt, afterwards
  \<open>E[C] = 0\<close>, \<open>E[left(C)] \<ge> Hshadow\<close>, \<open>E[right(C)] \<ge> Hshadow\<close> and \<open>FAILCOUNT = 0\<close>,
  whatever \<open>E\<close> and \<open>FAILCOUNT\<close> were before; the latch is the maximum of the decayed level
  and \<open>Hshadow\<close>, not a sum. The theorem is about any state with six shadow levels. No state
  of a run succeeds (\<open>ring_no_success\<close>), so the second theorem evaluates a state outside
  the runs: baton on \<open>B\<close> moving clockwise, the committed value of \<open>E\<close> at +1 and
  \<open>buf[C] = -1\<close>, with \<open>E[B] = 9\<close> above the floor 3.
\<close>

theorem act_success_postcondition:
  assumes "length (E st) = 6" and "act_succeeded (snd (tick Hs Em st))"
  shows "E (fst (tick Hs Em st)) ! nat (idx ''C'') = 0
       \<and> E (fst (tick Hs Em st)) ! nat (left (idx ''C'')) \<ge> Hs
       \<and> E (fst (tick Hs Em st)) ! nat (right (idx ''C'')) \<ge> Hs
       \<and> FAILCOUNT (task (fst (tick Hs Em st))) = 0
       \<and> E (fst (tick Hs Em st)) ! nat (left (idx ''C''))
           = max (decay (E st) ! nat (left (idx ''C''))) Hs
       \<and> E (fst (tick Hs Em st)) ! nat (right (idx ''C''))
           = max (decay (E st) ! nat (right (idx ''C''))) Hs"
proof (cases rule: tick_cases [of st Hs Em])
  case parked
  with assms(2) show ?thesis by (simp add: act_succeeded_def events_of_def)
next
  case (pass S2 new prev)
  with assms(2) show ?thesis by (simp add: act_succeeded_def events_of_def)
next
  case (jump S2 prev)
  with assms(2) show ?thesis by (simp add: act_succeeded_def events_of_def)
next
  case (success S2 prev E2 tk' evs)
  from assms(1) have le: "length (decay (E st)) = 6" by (rule length_decay)
  from act_success_shape [OF success(8)] E_update_three [OF le] show ?thesis
    unfolding success(9) by (simp add: idx_C left_2 right_2)
next
  case (fail S2 prev E2 buf' tk' evs)
  with assms(2) act_fail_events [OF fail(7)] show ?thesis
    by (simp add: act_succeeded_def events_of_def)
qed

theorem act_success_postcondition_witness:
  "length (E \<lparr>S = [1, 0, 1, - 1, 1, - 1], E = [0, 9, 5, 0, 0, 0],
       buf = [1, 1, - 1, - 1, - 1, - 1], baton_pos = 1,
       task = \<lparr>P = 1, D = 0, TTL = 1, FAILCOUNT = 2, DIR = ''CW'', K = 3, H = 2, PARK = 0\<rparr>\<rparr>) = 6
   \<and> act_succeeded (snd (tick 3 6 \<lparr>S = [1, 0, 1, - 1, 1, - 1], E = [0, 9, 5, 0, 0, 0],
       buf = [1, 1, - 1, - 1, - 1, - 1], baton_pos = 1,
       task = \<lparr>P = 1, D = 0, TTL = 1, FAILCOUNT = 2, DIR = ''CW'', K = 3, H = 2, PARK = 0\<rparr>\<rparr>))
   \<and> E (fst (tick 3 6 \<lparr>S = [1, 0, 1, - 1, 1, - 1], E = [0, 9, 5, 0, 0, 0],
       buf = [1, 1, - 1, - 1, - 1, - 1], baton_pos = 1,
       task = \<lparr>P = 1, D = 0, TTL = 1, FAILCOUNT = 2, DIR = ''CW'', K = 3, H = 2, PARK = 0\<rparr>\<rparr>))
     = [0, 8, 0, 3, 0, 0]
   \<and> FAILCOUNT (task (fst (tick 3 6 \<lparr>S = [1, 0, 1, - 1, 1, - 1], E = [0, 9, 5, 0, 0, 0],
       buf = [1, 1, - 1, - 1, - 1, - 1], baton_pos = 1,
       task = \<lparr>P = 1, D = 0, TTL = 1, FAILCOUNT = 2, DIR = ''CW'', K = 3, H = 2, PARK = 0\<rparr>\<rparr>))) = 0"
proof -
  let ?st = "\<lparr>S = [1, 0, 1, - 1, 1, - 1], E = [0, 9, 5, 0, 0, 0],
       buf = [1, 1, - 1, - 1, - 1, - 1], baton_pos = 1,
       task = \<lparr>P = 1, D = 0, TTL = 1, FAILCOUNT = 2, DIR = ''CW'', K = 3, H = 2, PARK = 0\<rparr>\<rparr>"
  have t: "tick 3 6 ?st =
     (\<lparr>S = [1, 1, 0, - 1, 1, - 1], E = [0, 8, 0, 3, 0, 0], buf = [1, 1, - 1, - 1, - 1, - 1],
       baton_pos = 2,
       task = \<lparr>P = 0, D = 0, TTL = 0, FAILCOUNT = 0, DIR = ''CW'', K = 3, H = 2, PARK = 0\<rparr>\<rparr>,
      MOVE_TICK [ARRIVE_C, BOUNDARY True True, ACT_MIRROR, TTL_TO 0, DONE])"
    by code_simp
  have h1: "length (E ?st) = 6" by simp
  have h2: "act_succeeded (snd (tick 3 6 ?st))"
    by (simp add: t act_succeeded_def events_of_def)
  from act_success_postcondition [OF h1 h2] h1 h2 show ?thesis
    by (simp add: t)
qed




text \<open>
  C4 (shadow bound). For a cap \<open>Emax \<ge> 0\<close>, whatever \<open>Hshadow\<close> and \<open>TTL\<close> are: in the initial
  state and after every tick there are six shadow levels, and every one of them lies in
  \<open>[0, Emax]\<close>. The decayed levels lie in \<open>[0, Emax]\<close> as well, so decay never takes a level
  below 0; and a failed attempt sets \<open>E[C]\<close> to the minimum of the decayed level plus one and
  \<open>Emax\<close>, so hesitation is capped at \<open>Emax\<close>. Success latching cannot break the bound in a
  run either, since the bound holds after every tick. A negative \<open>Emax\<close> leaves no level
  between 0 and \<open>Emax\<close>; the second theorem evaluates the defaults and the cap \<open>Emax = 0\<close>,
  where the hesitation \<open>0 + 1\<close> is cut to 0.
\<close>

theorem shadow_bound:
  assumes "0 \<le> Em"
  shows "length (E (run_state Hs Em ttl n)) = 6
       \<and> list_all (\<lambda>v. 0 \<le> v \<and> v \<le> Em) (E (run_state Hs Em ttl n))
       \<and> (i < 6 \<longrightarrow> 0 \<le> E (run_state Hs Em ttl n) ! i \<and> E (run_state Hs Em ttl n) ! i \<le> Em)
       \<and> list_all (\<lambda>v. 0 \<le> v \<and> v \<le> Em) (decay (E (run_state Hs Em ttl n)))
       \<and> (act_failed (run_output Hs Em ttl n)
            \<longrightarrow> E (run_state Hs Em ttl (Suc n)) ! nat (idx ''C'')
                  = min (decay (E (run_state Hs Em ttl n)) ! nat (idx ''C'') + 1) Em
              \<and> E (run_state Hs Em ttl (Suc n)) ! nat (idx ''C'') \<le> Em)"
proof -
  from run_shadow_bounded [OF assms, where Hs = Hs and ttl = ttl and n = n]
  have b: "list_all (\<lambda>v. 0 \<le> v \<and> v \<le> Em) (E (run_state Hs Em ttl n))"
    and l: "length (E (run_state Hs Em ttl n)) = 6"
    by (simp_all add: shadow_bounded_def)
  from bounded_nth [OF b, of i] l
  have p: "i < 6 \<longrightarrow> 0 \<le> E (run_state Hs Em ttl n) ! i \<and> E (run_state Hs Em ttl n) ! i \<le> Em"
    by simp
  note d = bounded_decay [OF b l]
  have h: "act_failed (run_output Hs Em ttl n)
            \<longrightarrow> E (run_state Hs Em ttl (Suc n)) ! nat (idx ''C'')
                  = min (decay (E (run_state Hs Em ttl n)) ! nat (idx ''C'') + 1) Em
              \<and> E (run_state Hs Em ttl (Suc n)) ! nat (idx ''C'') \<le> Em"
    using run_hesitation [of Hs Em ttl n] by simp
  from l b p d h show ?thesis by blast
qed

theorem shadow_bound_witness:
  "(0::int) \<le> 6 \<and> E (run_state 3 6 3 8) = [0, 0, 1, 0, 0, 0]
   \<and> (2::nat) < 6 \<and> 0 \<le> E (run_state 3 6 3 8) ! 2 \<and> E (run_state 3 6 3 8) ! 2 \<le> 6
   \<and> act_failed (run_output 3 6 3 7)
   \<and> E (run_state 3 6 3 (Suc 7)) ! nat (idx ''C'') = 1
   \<and> (0::int) \<le> 0 \<and> act_failed (run_output 3 0 3 7)
   \<and> decay (E (run_state 3 0 3 7)) ! nat (idx ''C'') + 1 = 1
   \<and> E (run_state 3 0 3 (Suc 7)) ! nat (idx ''C'') = 0"
proof -
  have h6: "(0::int) \<le> 6" and h0: "(0::int) \<le> 0" and i: "(2::nat) < 6" by simp_all
  have o7: "act_failed (run_output 3 6 3 7)"
    by (simp add: run_output_def tick_default_8 act_failed_def events_of_def)
  have e8: "E (run_state 3 6 3 8) = [0, 0, 1, 0, 0, 0]" by (simp add: run_default_8)
  have d7: "decay (E (run_state 3 6 3 7)) = [0, 0, 0, 0, 0, 0]"
    by (simp add: run_default_7 decay_six)
  note a = shadow_bound [OF h6, where Hs = 3 and ttl = 3 and n = 8 and i = 2]
  note b = shadow_bound [OF h6, where Hs = 3 and ttl = 3 and n = 7 and i = 2]
  note c = shadow_bound [OF h0, where Hs = 3 and ttl = 3 and n = 7 and i = 2]
  from b o7 d7 have s8: "E (run_state 3 6 3 (Suc 7)) ! nat (idx ''C'') = 1"
    by (simp add: idx_C)
  from c out_cap_0_7 run_cap_0_7 have c8: "E (run_state 3 0 3 (Suc 7)) ! nat (idx ''C'') = 0"
    by (simp add: idx_C)
  have c7: "decay (E (run_state 3 0 3 7)) ! nat (idx ''C'') + 1 = 1"
    by (simp add: run_cap_0_7 idx_C)
  from a i e8 have a2: "0 \<le> E (run_state 3 6 3 8) ! 2 \<and> E (run_state 3 6 3 8) ! 2 \<le> 6"
    by simp
  from h6 e8 i a2 o7 s8 h0 out_cap_0_7 c7 c8 show ?thesis by blast
qed

text \<open>
  C7 (task termination). In a run started with \<open>TTL \<ge> 0\<close>: \<open>TTL\<close> is non-negative in every
  state, a tick decreases it by exactly 1 when it is an act success and leaves it unchanged
  otherwise, and the task becomes inactive (\<open>P = 0\<close> and \<open>D = 0\<close>, from \<open>P = 1\<close>) exactly on a
  success tick that brings \<open>TTL\<close> to 0.

  The same holds tick by tick in any state: a tick decreases \<open>TTL\<close> by exactly 1 when it is
  an act success and leaves it unchanged otherwise; from a state with \<open>TTL \<ge> 1\<close>, \<open>TTL\<close> stays
  non-negative and the task becomes inactive exactly on a success that brings \<open>TTL\<close> to 0.
  Once \<open>P = 0\<close>, it stays 0 over any number of further ticks and none of them reports
  \<open>ARRIVE_C\<close>, while on every tick that is not parked the baton moves one step in the
  current direction.

  In the runs themselves \<open>TTL\<close> never changes (\<open>run_TTL_constant\<close>), because no run reaches
  an act success; the second theorem therefore evaluates, besides the default run, a state
  outside the runs with one repeat left, and the state it leads to.
\<close>

theorem ttl_accounting:
  assumes "0 \<le> ttl"
  shows "0 \<le> TTL (task (run_state Hs Em ttl n))
   \<and> TTL (task (run_state Hs Em ttl (Suc n)))
       = (if act_succeeded (run_output Hs Em ttl n)
          then TTL (task (run_state Hs Em ttl n)) - 1 else TTL (task (run_state Hs Em ttl n)))
   \<and> ((P (task (run_state Hs Em ttl n)) = 1 \<and> P (task (run_state Hs Em ttl (Suc n))) = 0
        \<and> D (task (run_state Hs Em ttl (Suc n))) = 0)
       \<longleftrightarrow> act_succeeded (run_output Hs Em ttl n) \<and> TTL (task (run_state Hs Em ttl (Suc n))) = 0)
   \<and> TTL (task (fst (tick Hs Em st)))
       = (if act_succeeded (snd (tick Hs Em st)) then TTL (task st) - 1 else TTL (task st))
   \<and> (1 \<le> TTL (task st)
        \<longrightarrow> 0 \<le> TTL (task (fst (tick Hs Em st)))
          \<and> ((P (task st) = 1 \<and> P (task (fst (tick Hs Em st))) = 0
               \<and> D (task (fst (tick Hs Em st))) = 0)
              \<longleftrightarrow> act_succeeded (snd (tick Hs Em st)) \<and> TTL (task (fst (tick Hs Em st))) = 0))
   \<and> (P (task st) = 0
        \<longrightarrow> list_all (\<lambda>(out, s). P (task s) = 0 \<and> ARRIVE_C \<notin> set (events_of out))
              (trace k Hs Em st))
   \<and> (P (task st) = 0 \<and> wf st \<and> \<not> PARK (task st) > 0
        \<longrightarrow> baton_pos (fst (tick Hs Em st)) = step_baton (baton_pos st) (DIR (task st))
          \<and> baton_pos (fst (tick Hs Em st)) \<noteq> baton_pos st)"
proof -
  let ?r = "run_state Hs Em ttl n"
  have out: "run_output Hs Em ttl n = snd (tick Hs Em ?r)"
    and nxt: "run_state Hs Em ttl (Suc n) = fst (tick Hs Em ?r)"
    by (simp_all add: run_output_def)
  note ns = ring_tick_not_success [OF run_ring_inv [of Hs Em ttl n], of Hs Em]
  from assms have a: "0 \<le> TTL (task ?r)" by (simp add: run_TTL_constant)
  have b: "TTL (task (run_state Hs Em ttl (Suc n)))
       = (if act_succeeded (run_output Hs Em ttl n)
          then TTL (task ?r) - 1 else TTL (task ?r))"
    unfolding out nxt by (rule tick_TTL)
  have c: "(P (task ?r) = 1 \<and> P (task (run_state Hs Em ttl (Suc n))) = 0
        \<and> D (task (run_state Hs Em ttl (Suc n))) = 0)
       \<longleftrightarrow> act_succeeded (run_output Hs Em ttl n) \<and> TTL (task (run_state Hs Em ttl (Suc n))) = 0"
    using tick_P [of Hs Em ?r] ns unfolding out nxt by simp
  note d = tick_TTL [of Hs Em st]
  have e: "1 \<le> TTL (task st)
        \<longrightarrow> 0 \<le> TTL (task (fst (tick Hs Em st)))
          \<and> ((P (task st) = 1 \<and> P (task (fst (tick Hs Em st))) = 0
               \<and> D (task (fst (tick Hs Em st))) = 0)
              \<longleftrightarrow> act_succeeded (snd (tick Hs Em st)) \<and> TTL (task (fst (tick Hs Em st))) = 0)"
    using d tick_P [of Hs Em st] by (cases "act_succeeded (snd (tick Hs Em st))") auto
  have f: "P (task st) = 0
        \<longrightarrow> list_all (\<lambda>(out, s). P (task s) = 0 \<and> ARRIVE_C \<notin> set (events_of out))
              (trace k Hs Em st)"
    using trace_inactive by blast
  have g: "P (task st) = 0 \<and> wf st \<and> \<not> PARK (task st) > 0
        \<longrightarrow> baton_pos (fst (tick Hs Em st)) = step_baton (baton_pos st) (DIR (task st))
          \<and> baton_pos (fst (tick Hs Em st)) \<noteq> baton_pos st"
    using tick_inactive [of st Hs Em] step_baton_neq [of "baton_pos st" "DIR (task st)"]
    by (auto simp: wf_def)
  from a b c d e f g show ?thesis by (simp only: simp_thms)
qed

theorem ttl_accounting_witness:
  "(0::int) \<le> 3
   \<and> TTL (task (run_state 3 6 3 7)) = 3
   \<and> TTL (task (run_state 3 6 3 (Suc 7))) = 3
   \<and> \<not> act_succeeded (run_output 3 6 3 7)
   \<and> 1 \<le> TTL (task \<lparr>S = [1, 0, 1, - 1, 1, - 1], E = [0, 9, 5, 0, 0, 0],
       buf = [1, 1, - 1, - 1, - 1, - 1], baton_pos = 1,
       task = \<lparr>P = 1, D = 0, TTL = 1, FAILCOUNT = 2, DIR = ''CW'', K = 3, H = 2, PARK = 0\<rparr>\<rparr>)
   \<and> P (task \<lparr>S = [1, 0, 1, - 1, 1, - 1], E = [0, 9, 5, 0, 0, 0],
       buf = [1, 1, - 1, - 1, - 1, - 1], baton_pos = 1,
       task = \<lparr>P = 1, D = 0, TTL = 1, FAILCOUNT = 2, DIR = ''CW'', K = 3, H = 2, PARK = 0\<rparr>\<rparr>) = 1
   \<and> act_succeeded (snd (tick 3 6 \<lparr>S = [1, 0, 1, - 1, 1, - 1], E = [0, 9, 5, 0, 0, 0],
       buf = [1, 1, - 1, - 1, - 1, - 1], baton_pos = 1,
       task = \<lparr>P = 1, D = 0, TTL = 1, FAILCOUNT = 2, DIR = ''CW'', K = 3, H = 2, PARK = 0\<rparr>\<rparr>))
   \<and> TTL (task (fst (tick 3 6 \<lparr>S = [1, 0, 1, - 1, 1, - 1], E = [0, 9, 5, 0, 0, 0],
       buf = [1, 1, - 1, - 1, - 1, - 1], baton_pos = 1,
       task = \<lparr>P = 1, D = 0, TTL = 1, FAILCOUNT = 2, DIR = ''CW'', K = 3, H = 2, PARK = 0\<rparr>\<rparr>))) = 0
   \<and> P (task (fst (tick 3 6 \<lparr>S = [1, 0, 1, - 1, 1, - 1], E = [0, 9, 5, 0, 0, 0],
       buf = [1, 1, - 1, - 1, - 1, - 1], baton_pos = 1,
       task = \<lparr>P = 1, D = 0, TTL = 1, FAILCOUNT = 2, DIR = ''CW'', K = 3, H = 2, PARK = 0\<rparr>\<rparr>))) = 0
   \<and> D (task (fst (tick 3 6 \<lparr>S = [1, 0, 1, - 1, 1, - 1], E = [0, 9, 5, 0, 0, 0],
       buf = [1, 1, - 1, - 1, - 1, - 1], baton_pos = 1,
       task = \<lparr>P = 1, D = 0, TTL = 1, FAILCOUNT = 2, DIR = ''CW'', K = 3, H = 2, PARK = 0\<rparr>\<rparr>))) = 0
   \<and> fst (tick 3 6 \<lparr>S = [1, 0, 1, - 1, 1, - 1], E = [0, 9, 5, 0, 0, 0],
       buf = [1, 1, - 1, - 1, - 1, - 1], baton_pos = 1,
       task = \<lparr>P = 1, D = 0, TTL = 1, FAILCOUNT = 2, DIR = ''CW'', K = 3, H = 2, PARK = 0\<rparr>\<rparr>) = \<lparr>S = [1, 1, 0, - 1, 1, - 1], E = [0, 8, 0, 3, 0, 0],
       buf = [1, 1, - 1, - 1, - 1, - 1], baton_pos = 2,
       task = \<lparr>P = 0, D = 0, TTL = 0, FAILCOUNT = 0, DIR = ''CW'', K = 3, H = 2, PARK = 0\<rparr>\<rparr>
   \<and> P (task \<lparr>S = [1, 1, 0, - 1, 1, - 1], E = [0, 8, 0, 3, 0, 0],
       buf = [1, 1, - 1, - 1, - 1, - 1], baton_pos = 2,
       task = \<lparr>P = 0, D = 0, TTL = 0, FAILCOUNT = 0, DIR = ''CW'', K = 3, H = 2, PARK = 0\<rparr>\<rparr>) = 0
   \<and> wf \<lparr>S = [1, 1, 0, - 1, 1, - 1], E = [0, 8, 0, 3, 0, 0],
       buf = [1, 1, - 1, - 1, - 1, - 1], baton_pos = 2,
       task = \<lparr>P = 0, D = 0, TTL = 0, FAILCOUNT = 0, DIR = ''CW'', K = 3, H = 2, PARK = 0\<rparr>\<rparr>
   \<and> \<not> PARK (task \<lparr>S = [1, 1, 0, - 1, 1, - 1], E = [0, 8, 0, 3, 0, 0],
       buf = [1, 1, - 1, - 1, - 1, - 1], baton_pos = 2,
       task = \<lparr>P = 0, D = 0, TTL = 0, FAILCOUNT = 0, DIR = ''CW'', K = 3, H = 2, PARK = 0\<rparr>\<rparr>) > 0
   \<and> baton_pos (fst (tick 3 6 \<lparr>S = [1, 1, 0, - 1, 1, - 1], E = [0, 8, 0, 3, 0, 0],
       buf = [1, 1, - 1, - 1, - 1, - 1], baton_pos = 2,
       task = \<lparr>P = 0, D = 0, TTL = 0, FAILCOUNT = 0, DIR = ''CW'', K = 3, H = 2, PARK = 0\<rparr>\<rparr>)) = 3
   \<and> list_all (\<lambda>(out, s). P (task s) = 0 \<and> ARRIVE_C \<notin> set (events_of out)) (trace 12 3 6 \<lparr>S = [1, 1, 0, - 1, 1, - 1], E = [0, 8, 0, 3, 0, 0],
       buf = [1, 1, - 1, - 1, - 1, - 1], baton_pos = 2,
       task = \<lparr>P = 0, D = 0, TTL = 0, FAILCOUNT = 0, DIR = ''CW'', K = 3, H = 2, PARK = 0\<rparr>\<rparr>)
   \<and> map (\<lambda>(out, s). baton_pos s) (trace 12 3 6 \<lparr>S = [1, 1, 0, - 1, 1, - 1], E = [0, 8, 0, 3, 0, 0],
       buf = [1, 1, - 1, - 1, - 1, - 1], baton_pos = 2,
       task = \<lparr>P = 0, D = 0, TTL = 0, FAILCOUNT = 0, DIR = ''CW'', K = 3, H = 2, PARK = 0\<rparr>\<rparr>) = [3, 4, 5, 0, 1, 2, 3, 4, 5, 0, 1, 2]"
proof -
  let ?a = "\<lparr>S = [1, 0, 1, - 1, 1, - 1], E = [0, 9, 5, 0, 0, 0],
       buf = [1, 1, - 1, - 1, - 1, - 1], baton_pos = 1,
       task = \<lparr>P = 1, D = 0, TTL = 1, FAILCOUNT = 2, DIR = ''CW'', K = 3, H = 2, PARK = 0\<rparr>\<rparr>"
  let ?b = "\<lparr>S = [1, 1, 0, - 1, 1, - 1], E = [0, 8, 0, 3, 0, 0],
       buf = [1, 1, - 1, - 1, - 1, - 1], baton_pos = 2,
       task = \<lparr>P = 0, D = 0, TTL = 0, FAILCOUNT = 0, DIR = ''CW'', K = 3, H = 2, PARK = 0\<rparr>\<rparr>"
  have c0: "(0::int) \<le> 3"
    by code_simp
  have c1: "TTL (task (run_state 3 6 3 7)) = 3"
    by code_simp
  have c2: "TTL (task (run_state 3 6 3 (Suc 7))) = 3"
    by code_simp
  have c3: "\<not> act_succeeded (run_output 3 6 3 7)"
    by code_simp
  have c4: "1 \<le> TTL (task ?a)"
    by code_simp
  have c5: "P (task ?a) = 1"
    by code_simp
  have c6: "act_succeeded (snd (tick 3 6 ?a))"
    by code_simp
  have c7: "TTL (task (fst (tick 3 6 ?a))) = 0"
    by code_simp
  have c8: "P (task (fst (tick 3 6 ?a))) = 0"
    by code_simp
  have c9: "D (task (fst (tick 3 6 ?a))) = 0"
    by code_simp
  have c10: "fst (tick 3 6 ?a) = ?b"
    by code_simp
  have c11: "P (task ?b) = 0"
    by code_simp
  have c12: "wf ?b"
    by code_simp
  have c13: "\<not> PARK (task ?b) > 0"
    by code_simp
  have c14: "baton_pos (fst (tick 3 6 ?b)) = 3"
    by code_simp
  have c15: "list_all (\<lambda>(out, s). P (task s) = 0 \<and> ARRIVE_C \<notin> set (events_of out)) (trace 12 3 6 ?b)"
    by code_simp
  have c16: "map (\<lambda>(out, s). baton_pos s) (trace 12 3 6 ?b) = [3, 4, 5, 0, 1, 2, 3, 4, 5, 0, 1, 2]"
    by code_simp
  from ttl_accounting [OF c0, where Hs = 3 and Em = 6 and n = 7 and st = ?a and k = 0]
    ttl_accounting [OF c0, where Hs = 3 and Em = 6 and n = 7 and st = ?b and k = 12]
  show ?thesis
    using c0 c1 c2 c3 c4 c5 c6 c7 c8 c9 c10 c11 c12 c13 c14 c15 c16 by blast
qed

text \<open>
  C8 (three consecutive failures). The claim says that after three reversals the net
  direction equals the original. Each failed attempt reverses the direction, so three of
  them leave it reversed. In the default run the attempts of ticks 8, 14 and 20 fail, with
  no success between them, starting from \<open>FAILCOUNT = 0\<close> and \<open>DIR = CW\<close>: after tick 20 the
  direction is \<open>CCW\<close>.
\<close>

theorem three_failures_counterexample:
  "K (task (init_state 3)) = 3 \<and> FAILCOUNT (task (init_state 3)) = 0
   \<and> DIR (task (init_state 3)) = ''CW''
   \<and> length (filter act_failed (outputs (trace 20 3 6 (init_state 3)))) = 3
   \<and> act_failed (fst (last (trace 20 3 6 (init_state 3))))
   \<and> DIR (task (snd (last (trace 20 3 6 (init_state 3))))) = ''CCW''
   \<and> DIR (task (snd (last (trace 20 3 6 (init_state 3))))) \<noteq> DIR (task (init_state 3))"
  by code_simp

text \<open>
  C8 as amended. Take any trace of ticks from a state with \<open>K = 3\<close> and \<open>FAILCOUNT = 0\<close>
  (and a buffer of six entries) that contains exactly three failed act attempts and no
  success, and ends with the third failure. Then the direction has been reversed three
  times, the trace reporting exactly three \<open>REV DIR\<close> events, so the final direction is the
  reverse of the original and differs from it; the trace reports exactly one \<open>ESCALATE\<close>,
  in its last tick, the third failure; \<open>buf[C]\<close> ends with the opposite sign; and \<open>PARK\<close>
  ends equal to \<open>H\<close>. Ticks without an attempt (moves elsewhere, the jump, parked ticks) may
  lie between the failures.
\<close>

theorem three_failures:
  assumes "length (buf st) = 6" and "K (task st) = 3" and "FAILCOUNT (task st) = 0"
    and "length (filter act_failed (outputs (trace n Hs Em st))) = 3"
    and "\<not> list_ex act_succeeded (outputs (trace n Hs Em st))"
    and "act_failed (fst (last (trace n Hs Em st)))"
  shows "DIR (task (snd (last (trace n Hs Em st))))
           = flip_dir (flip_dir (flip_dir (DIR (task st))))
       \<and> DIR (task (snd (last (trace n Hs Em st)))) = flip_dir (DIR (task st))
       \<and> DIR (task (snd (last (trace n Hs Em st)))) \<noteq> DIR (task st)
       \<and> length (filter is_REV_DIR (trace_events (trace n Hs Em st))) = 3
       \<and> length (filter is_ESCALATE (trace_events (trace n Hs Em st))) = 1
       \<and> escalated (fst (last (trace n Hs Em st)))
       \<and> buf (snd (last (trace n Hs Em st))) ! nat (idx ''C'') = - (buf st ! nat (idx ''C''))
       \<and> PARK (task (snd (last (trace n Hs Em st)))) = H (task st)"
proof -
  from assms(4) have ne: "filter act_failed (outputs (trace n Hs Em st)) \<noteq> []" by auto
  from assms(2,3,4)
  have sum: "FAILCOUNT (task st) + int (length (filter act_failed (outputs (trace n Hs Em st))))
           = K (task st)" by simp
  from fail_streak [OF assms(1) sum ne assms(5,6)] assms(4)
  show ?thesis
    by (simp add: idx_C eval_nat_numeral flip_dir_thrice flip_dir_neq)
qed

theorem three_failures_witness:
  "length (buf (init_state 3)) = 6 \<and> K (task (init_state 3)) = 3
   \<and> FAILCOUNT (task (init_state 3)) = 0
   \<and> length (filter act_failed (outputs (trace 20 3 6 (init_state 3)))) = 3
   \<and> \<not> list_ex act_succeeded (outputs (trace 20 3 6 (init_state 3)))
   \<and> act_failed (fst (last (trace 20 3 6 (init_state 3))))
   \<and> map (\<lambda>(out, s). act_failed out) (trace 20 3 6 (init_state 3))
       = [False, False, False, False, False, False, False, True,
          False, False, False, False, False, True,
          False, False, False, False, False, True]
   \<and> DIR (task (init_state 3)) = ''CW''
   \<and> DIR (task (snd (last (trace 20 3 6 (init_state 3))))) = ''CCW''
   \<and> length (filter is_REV_DIR (trace_events (trace 20 3 6 (init_state 3)))) = 3
   \<and> length (filter is_ESCALATE (trace_events (trace 20 3 6 (init_state 3)))) = 1
   \<and> escalated (fst (last (trace 20 3 6 (init_state 3))))
   \<and> buf (init_state 3) ! 2 = 1
   \<and> buf (snd (last (trace 20 3 6 (init_state 3)))) ! 2 = - 1
   \<and> PARK (task (snd (last (trace 20 3 6 (init_state 3))))) = 2"
proof -
  have h1: "length (buf (init_state 3)) = 6" and h2: "K (task (init_state 3)) = 3"
    and h3: "FAILCOUNT (task (init_state 3)) = 0"
    by (simp_all add: init_state_eq new_Task_def)
  have h4: "length (filter act_failed (outputs (trace 20 3 6 (init_state 3)))) = 3"
    by code_simp
  have h5: "\<not> list_ex act_succeeded (outputs (trace 20 3 6 (init_state 3)))"
    by code_simp
  have h6: "act_failed (fst (last (trace 20 3 6 (init_state 3))))"
    by code_simp
  have pat: "map (\<lambda>(out, s). act_failed out) (trace 20 3 6 (init_state 3))
       = [False, False, False, False, False, False, False, True,
          False, False, False, False, False, True,
          False, False, False, False, False, True]"
    by code_simp
  have d0: "DIR (task (init_state 3)) = ''CW''" and b0: "buf (init_state 3) ! 2 = 1"
    and hh: "H (task (init_state 3)) = 2"
    by (simp_all add: init_state_eq new_Task_def)
  from three_failures [OF h1 h2 h3 h4 h5 h6] h1 h2 h3 h4 h5 h6 pat d0 b0 hh show ?thesis
    by (simp add: flip_dir_def idx_C)
qed

end
